theory Spec2Isabelle
  imports Main "HOL-Library.AList"
begin

section \<open>Agent orchestration and conversation contexts\<close>

text \<open>
  A shallow embedding of the agent manager (class \<open>AgentManager\<close>), of the agent base
  class (\<open>BaseAgent\<close>) and of the three agent classes whose source is available
  (\<open>FoodieAgent\<close>, \<open>RideNowAgent\<close>, \<open>AskMeAgent\<close>).

  Conventions.
  \<^item> A raised JavaScript exception (a rejected promise) is \<open>Inl\<close> of an \<open>error\<close>, a
    returned value is \<open>Inr\<close>.
  \<^item> A JavaScript \<open>Map\<close> is an association list in insertion order; \<open>Map.get\<close> is
    \<open>map_of\<close>, \<open>Map.set\<close> is \<open>AList.update\<close> (replace in place, else append),
    \<open>Map.delete\<close> is \<open>AList.delete\<close>.
  \<^item> Everything outside the process (the clock, the completion service, the code of the
    agent classes that are required but whose source is not available) is a \<open>world\<close>,
    given anew for every turn.
  \<^item> Strings are ASCII texts; \<open>toLowerCase\<close> and \<open>trim\<close> are modelled on ASCII.
\<close>

subsection \<open>Strings\<close>

definition lower_char :: "char \<Rightarrow> char" where
  "lower_char c =
     (case map_of (zip ''ABCDEFGHIJKLMNOPQRSTUVWXYZ'' ''abcdefghijklmnopqrstuvwxyz'') c of
        Some l \<Rightarrow> l
      | None \<Rightarrow> c)"

definition toLowerCase :: "string \<Rightarrow> string" where
  "toLowerCase s = map lower_char s"

definition is_space :: "char \<Rightarrow> bool" where
  "is_space c = (c \<in> set [CHR 0x09, CHR 0x0A, CHR 0x0B, CHR 0x0C, CHR 0x0D, CHR 0x20])"

definition trim :: "string \<Rightarrow> string" where
  "trim s = rev (dropWhile is_space (rev (dropWhile is_space s)))"

fun startsWith :: "string \<Rightarrow> string \<Rightarrow> bool" where
  "startsWith s [] = True"
| "startsWith [] (k # ks) = False"
| "startsWith (c # cs) (k # ks) = (c = k \<and> startsWith cs ks)"

fun str_includes :: "string \<Rightarrow> string \<Rightarrow> bool" where
  "str_includes [] k = (k = [])"
| "str_includes (c # cs) k = (startsWith (c # cs) k \<or> str_includes cs k)"

fun join :: "string \<Rightarrow> string list \<Rightarrow> string" where
  "join sep [] = []"
| "join sep [x] = x"
| "join sep (x # y # ys) = x @ sep @ join sep (y # ys)"

subsection \<open>Data\<close>

datatype error = Error string

fun error_message :: "error \<Rightarrow> string" where
  "error_message (Error s) = s"

datatype jsvalue = JStr string | JNum int | JBool bool

type_synonym metadata = "(string \<times> jsvalue) list"
type_synonym action = "(string \<times> string) list"
type_synonym handoffContext = "(string \<times> string) list"

text \<open>The handoff directive built by \<open>BaseAgent.createHandoff\<close>.\<close>

record handoff =
  targetAgent :: string
  reason :: string
  h_context :: "handoffContext option"
  autoHandoff :: bool

text \<open>
  What an agent returns. A field that the returned object does not have is \<open>None\<close>:
  \<open>BaseAgent.handleError\<close> returns \<open>{message, error}\<close> only, \<open>formatResponse\<close> returns
  \<open>{message, actions, suggestions, metadata}\<close>.
\<close>

record response =
  r_message :: string
  r_actions :: "action list option"
  r_suggestions :: "string list option"
  r_handoff :: "handoff option"
  r_metadata :: "metadata option"
  r_error :: "bool option"

datatype entry =
    UserEntry string int
  | AgentEntry string string int metadata
  | HandoffEntry string string string int metadata

fun entry_type :: "entry \<Rightarrow> string" where
  "entry_type (UserEntry c t) = ''user''"
| "entry_type (AgentEntry a c t md) = ''agent''"
| "entry_type (HandoffEntry f a c t md) = ''handoff''"

fun entry_content :: "entry \<Rightarrow> string" where
  "entry_content (UserEntry c t) = c"
| "entry_content (AgentEntry a c t md) = c"
| "entry_content (HandoffEntry f a c t md) = c"

text \<open>
  The conversation context of one user. \<open>currentAgent\<close>, \<open>handoffTarget\<close> and
  \<open>handoffReason\<close> are \<open>None\<close> when the property is \<open>null\<close> or missing.
\<close>

record conv_context =
  currentAgent :: "string option"
  history :: "entry list"
  handoffRequested :: bool
  handoffTarget :: "string option"
  handoffReason :: "string option"
  lastActivity :: int
  handoffContext :: "handoffContext option"

text \<open>JavaScript truthiness of a string-or-null: \<open>null\<close> and the empty string are falsy.\<close>

fun truthy :: "string option \<Rightarrow> bool" where
  "truthy None = False"
| "truthy (Some s) = (s \<noteq> [])"

datatype handoff_field = HNull | HDirective handoff | HTrue

text \<open>
  What \<open>processMessage\<close> returns to the route: the object of the normal path and of
  \<open>processHandoff\<close>, or the object built in the \<open>catch\<close> block, which has the fields
  \<open>agent\<close>, \<open>message\<close>, \<open>error\<close> and \<open>originalError\<close> only.
\<close>

datatype envelope =
    Envelope string string "action list" "string list" handoff_field metadata
  | Fallback string string bool string

fun env_agent :: "envelope \<Rightarrow> string" where
  "env_agent (Envelope a msg acts sugg h md) = a"
| "env_agent (Fallback a msg e orig) = a"

fun env_message :: "envelope \<Rightarrow> string" where
  "env_message (Envelope a msg acts sugg h md) = msg"
| "env_message (Fallback a msg e orig) = msg"

fun well_formed :: "envelope \<Rightarrow> bool" where
  "well_formed (Envelope a msg acts sugg h md) = True"
| "well_formed (Fallback a msg e orig) = False"

fun originalError :: "envelope \<Rightarrow> string option" where
  "originalError (Envelope a msg acts sugg h md) = None"
| "originalError (Fallback a msg e orig) = Some orig"

subsection \<open>Agents\<close>

datatype agent_class =
  FoodieAgent | RideNowAgent | TravelBuddyAgent | ShopSmartAgent | GrocerAgent | AskMeAgent

text \<open>
  The fields that the constructor of \<open>BaseAgent\<close> sets, without the reference to the
  completion service and without \<open>lastActivity\<close>: the private state of an agent
  (\<open>lastActivity\<close>, \<open>orderStates\<close>, \<open>rideStates\<close>) is read by nothing in the manager
  and stays behind the \<open>world\<close>.
\<close>

record agent =
  cls :: agent_class
  agentName :: string
  capabilities :: "string list"
  isActive :: bool

definition BaseAgent :: "agent_class \<Rightarrow> string \<Rightarrow> string list \<Rightarrow> agent" where
  "BaseAgent c name caps = \<lparr>cls = c, agentName = name, capabilities = caps, isActive = True\<rparr>"

definition new_FoodieAgent :: agent where
  "new_FoodieAgent = BaseAgent FoodieAgent ''Foodie AI''
     [''food ordering'', ''restaurant recommendations'', ''cuisine suggestions'',
      ''dietary preferences'', ''food delivery tracking'']"

definition new_RideNowAgent :: agent where
  "new_RideNowAgent = BaseAgent RideNowAgent ''RideNow AI''
     [''cab booking'', ''ride sharing'', ''transportation options'', ''fare estimation'',
      ''ride tracking'']"

definition new_AskMeAgent :: agent where
  "new_AskMeAgent = BaseAgent AskMeAgent ''AskMe AI''
     [''general questions'', ''casual conversation'', ''help and support'',
      ''information lookup'', ''recommendations'']"

text \<open>The places where the code reads the clock (\<open>Date.now()\<close>); each is passed at most
  once in a turn.\<close>

datatype site =
  FreshContext | Activity | UserTimestamp | AgentTimestamp | HandoffTimestamp | Sweep
  | ResponseTimestamp | ErrorTimestamp

text \<open>
  The world of one turn.
  \<^item> \<open>now\<close>: the clock, read at a site.
  \<^item> \<open>completion\<close>: the classification request's outcome, \<open>Inr\<close> of the text
    \<open>response.choices[0].message.content\<close>, or \<open>Inl\<close> when the call or the access raises.
  \<^item> \<open>body\<close>: for an agent class whose source is available, the outcome of the \<open>try\<close>
    block of its \<open>processMessage\<close> (intent analysis and the domain handler, which ends in
    \<open>formatResponse(message, actions, suggestions)\<close>) or the exception raised there.
  \<^item> \<open>absent_new\<close>, \<open>absent_canHandle\<close>, \<open>absent_processMessage\<close>,
    \<open>absent_handleHandoff\<close>: the constructor and the methods of the classes
    \<open>TravelBuddyAgent\<close>, \<open>ShopSmartAgent\<close> and \<open>GrocerAgent\<close>, which the manager requires
    and whose source is not available.
\<close>

record world =
  now :: "site \<Rightarrow> int"
  completion :: "error + string"
  body :: "agent_class \<Rightarrow> error + (string \<times> action list \<times> string list)"
  absent_new :: "agent_class \<Rightarrow> agent"
  absent_canHandle :: "agent_class \<Rightarrow> error + bool"
  absent_processMessage :: "agent_class \<Rightarrow> error + response"
  absent_handleHandoff :: "agent_class \<Rightarrow> error + response"

definition formatResponse ::
  "world \<Rightarrow> site \<Rightarrow> agent \<Rightarrow> string \<Rightarrow> action list \<Rightarrow> string list \<Rightarrow> response" where
  "formatResponse w s a msg acts sugg =
     \<lparr>r_message = msg, r_actions = Some acts, r_suggestions = Some sugg, r_handoff = None,
      r_metadata = Some [(''agent'', JStr (agentName a)), (''timestamp'', JNum (now w s))],
      r_error = None\<rparr>"

definition foodKeywords :: "string list" where
  "foodKeywords =
     [''food'', ''order'', ''restaurant'', ''eat'', ''hungry'', ''delivery'', ''menu'',
      ''cuisine'', ''dish'', ''meal'', ''breakfast'', ''lunch'', ''dinner'', ''snack'',
      ''pizza'', ''burger'', ''biryani'', ''curry'', ''chinese'', ''italian'']"

definition rideKeywords :: "string list" where
  "rideKeywords =
     [''cab'', ''taxi'', ''ride'', ''book'', ''uber'', ''ola'', ''auto'', ''rickshaw'',
      ''transport'', ''travel'', ''pickup'', ''drop'', ''fare'', ''driver'',
      ''airport'', ''station'', ''go to'', ''take me to'']"

definition some_keyword :: "string list \<Rightarrow> string \<Rightarrow> bool" where
  "some_keyword keywords msg =
     list_ex (\<lambda>keyword. str_includes (toLowerCase msg) (toLowerCase keyword)) keywords"

text \<open>\<open>canHandle(message, context)\<close>: \<open>BaseAgent\<close> and \<open>AskMeAgent\<close> answer true, the
  food and ride agents look for a keyword.\<close>

definition canHandle :: "world \<Rightarrow> agent \<Rightarrow> string \<Rightarrow> conv_context \<Rightarrow> error + bool" where
  "canHandle w a msg ctx =
     (case cls a of
        FoodieAgent \<Rightarrow> Inr (some_keyword foodKeywords msg)
      | RideNowAgent \<Rightarrow> Inr (some_keyword rideKeywords msg)
      | AskMeAgent \<Rightarrow> Inr True
      | c \<Rightarrow> absent_canHandle w c)"

definition apology_BaseAgent :: string where
  "apology_BaseAgent =
     ''I apologize, but I'' @ [CHR 0x27] @ ''m having trouble processing your request. '' @
     ''Let me try to help you in a different way.''"

definition bullet :: string where
  "bullet = [CHR 0xE2, CHR 0x80, CHR 0xA2]"

definition apology_AskMeAgent :: string where
  "apology_AskMeAgent =
     ''I apologize, but I encountered an issue while processing your request. '' @
     ''Let me try to help you in a different way. '' @ [CHR 0x0A, CHR 0x0A] @
     ''Here are some things I can definitely help you with:'' @ [CHR 0x0A] @
     bullet @ '' General questions about the app'' @ [CHR 0x0A] @
     bullet @ '' Connecting you to specialized agents'' @ [CHR 0x0A] @
     bullet @ '' App features and guidance'' @ [CHR 0x0A] @
     bullet @ '' Troubleshooting common issues'' @ [CHR 0x0A, CHR 0x0A] @
     ''What would you like to try?''"

text \<open>\<open>handleError(message, error)\<close>: \<open>AskMeAgent\<close> overrides the method of
  \<open>BaseAgent\<close>; the other classes inherit it.\<close>

definition handleError :: "world \<Rightarrow> agent \<Rightarrow> string \<Rightarrow> error \<Rightarrow> response" where
  "handleError w a msg err =
     (case cls a of
        AskMeAgent \<Rightarrow>
          formatResponse w ErrorTimestamp a apology_AskMeAgent []
            [''Try again'', ''Show app features'', ''Connect to food agent'',
             ''Connect to ride agent'', ''Get help'']
      | c \<Rightarrow>
          \<lparr>r_message = apology_BaseAgent, r_actions = None, r_suggestions = None,
           r_handoff = None, r_metadata = None, r_error = Some True\<rparr>)"

text \<open>
  \<open>processMessage(message, context, userProfile)\<close> of an agent: the classes at hand wrap
  their body in \<open>try\<close> and answer an exception with \<open>handleError\<close>.
\<close>

definition agent_processMessage ::
  "world \<Rightarrow> agent \<Rightarrow> string \<Rightarrow> conv_context \<Rightarrow> string option \<Rightarrow> error + response" where
  "agent_processMessage w a msg ctx userProfile =
     (if cls a \<in> {FoodieAgent, RideNowAgent, AskMeAgent} then
        (case body w (cls a) of
           Inl err \<Rightarrow> Inr (handleError w a msg err)
         | Inr (text, acts, sugg) \<Rightarrow> Inr (formatResponse w ResponseTimestamp a text acts sugg))
      else absent_processMessage w (cls a))"

definition generateWelcomeMessage :: "agent \<Rightarrow> string" where
  "generateWelcomeMessage a =
     ''Hi! I'' @ [CHR 0x27] @ ''m '' @ agentName a @ ''. I can help you with '' @
     join '', '' (capabilities a) @ ''. How can I assist you today?''"

definition stage_of :: "handoffContext \<Rightarrow> string" where
  "stage_of hc =
     (case map_of hc ''stage'' of None \<Rightarrow> ''initial'' | Some s \<Rightarrow> if s = [] then ''initial'' else s)"

definition foodSuggestionMap :: "(string \<times> string list) list" where
  "foodSuggestionMap =
     [(''initial'', [''Popular restaurants'', ''Order again'', ''Cuisine categories'', ''Deals & offers'']),
      (''restaurant_selection'', [''View menu'', ''Check reviews'', ''Filter by rating'', ''Delivery time'']),
      (''menu_browse'', [''Add to cart'', ''View categories'', ''Popular items'', ''Chef'' @ [CHR 0x27] @ ''s special'']),
      (''cart'', [''Proceed to checkout'', ''Add more items'', ''Apply coupon'', ''Modify quantity'']),
      (''checkout'', [''Confirm order'', ''Change address'', ''Payment options'', ''Add instructions''])]"

definition rideSuggestionMap :: "(string \<times> string list) list" where
  "rideSuggestionMap =
     [(''initial'', [''Book a ride'', ''Get fare estimate'', ''Nearby cabs'', ''Schedule ride'']),
      (''ride_selection'', [''Book this ride'', ''Compare fares'', ''Check driver details'', ''Modify route'']),
      (''booking_confirmed'', [''Track ride'', ''Call driver'', ''Share trip'', ''Cancel ride'']),
      (''ride_active'', [''Track live'', ''Contact driver'', ''Report issue'', ''Share location''])]"

definition lookup_stage :: "(string \<times> string list) list \<Rightarrow> string \<Rightarrow> string list" where
  "lookup_stage table stage =
     (case map_of table stage of
        Some xs \<Rightarrow> xs
      | None \<Rightarrow> (case map_of table ''initial'' of Some xs \<Rightarrow> xs | None \<Rightarrow> []))"

text \<open>\<open>generateSuggestions(context, conversationContext)\<close>; the stage is looked up among
  the keys written in the table (a stage named like a member of \<open>Object.prototype\<close> is
  outside the model).\<close>

definition generateSuggestions :: "agent \<Rightarrow> handoffContext \<Rightarrow> string list" where
  "generateSuggestions a hc =
     (case cls a of
        FoodieAgent \<Rightarrow> lookup_stage foodSuggestionMap (stage_of hc)
      | RideNowAgent \<Rightarrow> lookup_stage rideSuggestionMap (stage_of hc)
      | AskMeAgent \<Rightarrow>
          [''How can I help you?'', ''Show app features'', ''Get recommendations'',
           ''Connect to specialist agent'', ''Technical support'']
      | c \<Rightarrow> [])"

definition fromAgent_text :: "handoffContext \<Rightarrow> string" where
  "fromAgent_text hc = (case map_of hc ''fromAgent'' of None \<Rightarrow> ''undefined'' | Some s \<Rightarrow> s)"

text \<open>\<open>handleHandoff(handoffContext, conversationContext)\<close>: \<open>AskMeAgent\<close> overrides the
  default of \<open>BaseAgent\<close>.\<close>

definition handleHandoff :: "world \<Rightarrow> agent \<Rightarrow> handoffContext \<Rightarrow> conv_context \<Rightarrow> error + response" where
  "handleHandoff w a hc ctx =
     (case cls a of
        AskMeAgent \<Rightarrow>
          Inr \<lparr>r_message =
                 ''Hi! I'' @ [CHR 0x27] @ ''m AskMe AI. I'' @ [CHR 0x27] @ ''ve taken over from '' @
                 fromAgent_text hc @
                 '' to help you with general questions or guide you to other services. '' @
                 ''What can I help you with?'',
               r_actions = Some [[(''type'', ''agent_handoff_complete'')] @
                                 (case map_of hc ''fromAgent'' of None \<Rightarrow> []
                                  | Some s \<Rightarrow> [(''fromAgent'', s)]) @
                                 [(''toAgent'', ''AskMe AI'')]],
               r_suggestions = Some [''What can you help me with?'', ''Show app features'',
                                     ''Get recommendations'', ''How to use other agents''],
               r_handoff = None, r_metadata = None, r_error = None\<rparr>
      | c \<Rightarrow>
          (if c \<in> {FoodieAgent, RideNowAgent} then
             Inr \<lparr>r_message = generateWelcomeMessage a, r_actions = Some [],
                  r_suggestions = Some (generateSuggestions a hc),
                  r_handoff = None, r_metadata = None, r_error = None\<rparr>
           else absent_handleHandoff w c))"

subsection \<open>The manager\<close>

record manager =
  agents :: "(string \<times> agent) list"
  conversationContext :: "(string \<times> conv_context) list"
  isInitialized :: bool

definition constructor :: manager where
  "constructor = \<lparr>agents = [], conversationContext = [], isInitialized = False\<rparr>"

text \<open>\<open>initialize()\<close>: six calls of \<open>Map.set\<close>. An agent of a class without source is
  what the world's constructor gives, with its class. The constructors are taken not to
  throw: those of the classes at hand cannot, and those of the classes without source
  are total functions of the world. (If one threw, \<open>initialize\<close> would throw before
  \<open>askme\<close> is registered, and \<open>processMessage\<close> would throw again from its \<open>catch\<close>
  block.)\<close>

definition initialize :: "world \<Rightarrow> manager \<Rightarrow> manager" where
  "initialize w m =
     m\<lparr>agents :=
         AList.update ''askme'' new_AskMeAgent
          (AList.update ''grocer'' ((absent_new w GrocerAgent)\<lparr>cls := GrocerAgent\<rparr>)
            (AList.update ''shopsmart'' ((absent_new w ShopSmartAgent)\<lparr>cls := ShopSmartAgent\<rparr>)
              (AList.update ''travelbuddy'' ((absent_new w TravelBuddyAgent)\<lparr>cls := TravelBuddyAgent\<rparr>)
                (AList.update ''ridenow'' new_RideNowAgent
                  (AList.update ''foodie'' new_FoodieAgent (agents m)))))),
       isInitialized := True\<rparr>"

datatype event = CanHandleCall string | ClassificationRequest string

definition render_entry :: "entry \<Rightarrow> string" where
  "render_entry h = entry_type h @ '': '' @ entry_content h"

definition slice_last3 :: "'a list \<Rightarrow> 'a list" where
  "slice_last3 xs = drop (length xs - 3) xs"

definition contextInfo :: "conv_context \<Rightarrow> string" where
  "contextInfo ctx =
     (if length (history ctx) > 0
      then ''Recent conversation: '' @ join [CHR 0x0A] (map render_entry (slice_last3 (history ctx)))
      else ''No previous context'')"

definition userInfo :: "string option \<Rightarrow> string" where
  "userInfo userProfile =
     (case userProfile of
        Some preferences \<Rightarrow> ''User preferences: '' @ preferences
      | None \<Rightarrow> ''No user profile available'')"

definition classification_content :: "string \<Rightarrow> conv_context \<Rightarrow> string option \<Rightarrow> string" where
  "classification_content msg ctx userProfile =
     ''Message: '' @ [CHR 0x22] @ msg @ [CHR 0x22] @ [CHR 0x0A, CHR 0x0A] @ contextInfo ctx @
     [CHR 0x0A, CHR 0x0A] @ userInfo userProfile"

text \<open>The second half of \<open>determineAgent\<close>: one request to the completion service, the
  answer trimmed and lowered, validated against the roster; an exception gives
  \<open>askme\<close>.\<close>

definition classify ::
  "world \<Rightarrow> manager \<Rightarrow> string \<Rightarrow> conv_context \<Rightarrow> string option \<Rightarrow> string \<times> event list" where
  "classify w m msg ctx userProfile =
     (case completion w of
        Inl err \<Rightarrow> (''askme'', [ClassificationRequest (classification_content msg ctx userProfile)])
      | Inr content \<Rightarrow>
          (let agentType = toLowerCase (trim content) in
           (if map_of (agents m) agentType = None then ''askme'' else agentType,
            [ClassificationRequest (classification_content msg ctx userProfile)])))"

text \<open>
  \<open>determineAgent(message, context, userProfile)\<close>, with the calls it makes to
  \<open>canHandle\<close> and to the completion service. An exception of \<open>canHandle\<close> is
  caught by the \<open>catch\<close> of the whole method.
\<close>

definition determineAgent ::
  "world \<Rightarrow> manager \<Rightarrow> string \<Rightarrow> conv_context \<Rightarrow> string option \<Rightarrow> string \<times> event list" where
  "determineAgent w m msg ctx userProfile =
     (if truthy (currentAgent ctx) \<and> \<not> handoffRequested ctx then
        (case map_of (agents m) (the (currentAgent ctx)) of
           None \<Rightarrow> classify w m msg ctx userProfile
         | Some a \<Rightarrow>
             (case canHandle w a msg ctx of
                Inl err \<Rightarrow> (''askme'', [CanHandleCall (the (currentAgent ctx))])
              | Inr True \<Rightarrow> (the (currentAgent ctx), [CanHandleCall (the (currentAgent ctx))])
              | Inr False \<Rightarrow>
                  (case classify w m msg ctx userProfile of
                     (agentType, calls) \<Rightarrow>
                       (agentType, CanHandleCall (the (currentAgent ctx)) # calls))))
      else classify w m msg ctx userProfile)"


text \<open>\<open>this.conversationContext.set(userId, context)\<close>.\<close>

definition store :: "string \<Rightarrow> conv_context \<Rightarrow> manager \<Rightarrow> manager" where
  "store userId ctx m = m\<lparr>conversationContext := AList.update userId ctx (conversationContext m)\<rparr>"

text \<open>
  A context is an object. The one that \<open>Map.get\<close> returned is the object in the Map, and
  every assignment to it is seen through the Map; the one created for a user without
  context is in no Map until \<open>Map.set\<close> is called. \<open>through aliased userId ctx m\<close> is the
  manager once the local object has become \<open>ctx\<close>.
\<close>

definition through :: "bool \<Rightarrow> string \<Rightarrow> conv_context \<Rightarrow> manager \<Rightarrow> manager" where
  "through aliased userId ctx m = (if aliased then store userId ctx m else m)"

definition or_empty :: "'a list option \<Rightarrow> 'a list" where
  "or_empty x = (case x of None \<Rightarrow> [] | Some xs \<Rightarrow> xs)"

definition fromAgent_or_unknown :: "handoffContext \<Rightarrow> string" where
  "fromAgent_or_unknown hc =
     (case map_of hc ''fromAgent'' of
        None \<Rightarrow> ''unknown''
      | Some s \<Rightarrow> if s = [] then ''unknown'' else s)"

text \<open>
  \<open>processHandoff(userId, targetAgent, handoffContext = {})\<close>. The context is the
  object in the Map: the flags and \<open>currentAgent\<close> are assigned before the target is
  looked up, and stay assigned when the method throws.
\<close>

definition processHandoff ::
  "world \<Rightarrow> manager \<Rightarrow> string \<Rightarrow> string \<Rightarrow> handoffContext option
     \<Rightarrow> (error + envelope) \<times> manager" where
  "processHandoff w m userId target handoffContextArg =
     (case map_of (conversationContext m) userId of
        None \<Rightarrow> (Inl (Error ''No conversation context found for handoff''), m)
      | Some ctx \<Rightarrow>
          (let hc = or_empty handoffContextArg;
               ctx1 = ctx\<lparr>handoffRequested := False, handoffTarget := None,
                          handoffReason := None, currentAgent := Some target,
                          handoffContext := Some hc\<rparr>
           in case map_of (agents m) target of
                None \<Rightarrow>
                  (Inl (Error (''Target agent '' @ target @ '' not found'')), store userId ctx1 m)
              | Some a \<Rightarrow>
                  (case handleHandoff w a hc ctx1 of
                     Inl err \<Rightarrow> (Inl err, store userId ctx1 m)
                   | Inr response \<Rightarrow>
                       (Inr (Envelope target (r_message response)
                               (or_empty (r_actions response))
                               (or_empty (r_suggestions response)) HTrue
                               (or_empty (r_metadata response))),
                        store userId
                          (ctx1\<lparr>history := history ctx1 @
                                   [HandoffEntry (fromAgent_or_unknown hc) target
                                      (r_message response) (now w HandoffTimestamp)
                                      (or_empty (r_metadata response))]\<rparr>) m))))"

definition getUserContext :: "manager \<Rightarrow> string \<Rightarrow> conv_context option" where
  "getUserContext m userId = map_of (conversationContext m) userId"

definition clearUserContext :: "manager \<Rightarrow> string \<Rightarrow> manager" where
  "clearUserContext m userId =
     m\<lparr>conversationContext := AList.delete userId (conversationContext m)\<rparr>"

text \<open>\<open>cleanupOldContexts()\<close>: the loop over the entries of the Map, deleting the entry
  at hand when it is older than the cutoff.\<close>

definition cutoffTime :: "world \<Rightarrow> int" where
  "cutoffTime w = now w Sweep - (24 * 60 * 60 * 1000)"

definition cleanupOldContexts :: "world \<Rightarrow> manager \<Rightarrow> manager" where
  "cleanupOldContexts w m =
     m\<lparr>conversationContext :=
         fold (\<lambda>(userId, ctx) entries.
                 if lastActivity ctx < cutoffTime w then AList.delete userId entries else entries)
              (conversationContext m) (conversationContext m)\<rparr>"

definition getAvailableAgents :: "manager \<Rightarrow> string list" where
  "getAvailableAgents m = map fst (agents m)"

text \<open>
  \<open>getAgentStatus()\<close>. The status of an agent is \<open>{initialized, active}\<close>, where
  \<open>active\<close> is \<open>agent.isActive ? agent.isActive() : true\<close>: \<open>isActive\<close> is the boolean
  field that the constructor of \<open>BaseAgent\<close> sets, so that when it is true the call
  \<open>agent.isActive()\<close> raises a \<open>TypeError\<close>.
\<close>

fun status_loop ::
  "(string \<times> agent) list \<Rightarrow> (string \<times> bool \<times> bool) list \<Rightarrow> error + (string \<times> bool \<times> bool) list" where
  "status_loop [] status = Inr status"
| "status_loop ((name, a) # rest) status =
     (if isActive a then Inl (Error ''agent.isActive is not a function'')
      else status_loop rest (AList.update name (True, True) status))"

definition getAgentStatus :: "manager \<Rightarrow> error + (string \<times> bool \<times> bool) list" where
  "getAgentStatus m = status_loop (agents m) []"

definition fresh_context :: "world \<Rightarrow> conv_context" where
  "fresh_context w =
     \<lparr>currentAgent = None, history = [], handoffRequested = False, handoffTarget = None,
      handoffReason = None, lastActivity = now w FreshContext, handoffContext = None\<rparr>"

definition handoff_or_null :: "handoff option \<Rightarrow> handoff_field" where
  "handoff_or_null x = (case x of None \<Rightarrow> HNull | Some h \<Rightarrow> HDirective h)"

text \<open>The end of the normal path: save the context, sweep, return the envelope.\<close>

definition save_and_return ::
  "world \<Rightarrow> manager \<Rightarrow> string \<Rightarrow> string \<Rightarrow> conv_context \<Rightarrow> response
     \<Rightarrow> (error + envelope) \<times> manager" where
  "save_and_return w m userId agentType ctx response =
     (Inr (Envelope agentType (r_message response) (or_empty (r_actions response))
             (or_empty (r_suggestions response)) (handoff_or_null (r_handoff response))
             (or_empty (r_metadata response))),
      cleanupOldContexts w (store userId ctx m))"

text \<open>The part of the turn after the agent has answered: the reply is appended to the
  history, a handoff directive is recorded and, when automatic, processed at once.\<close>

definition after_response ::
  "world \<Rightarrow> manager \<Rightarrow> bool \<Rightarrow> string \<Rightarrow> string \<Rightarrow> conv_context \<Rightarrow> response
     \<Rightarrow> (error + envelope) \<times> manager" where
  "after_response w m aliased userId agentType ctx response =
     (let ctx3 = ctx\<lparr>history := history ctx @
                        [AgentEntry agentType (r_message response) (now w AgentTimestamp)
                           (or_empty (r_metadata response))]\<rparr>
      in case r_handoff response of
           None \<Rightarrow> save_and_return w m userId agentType ctx3 response
         | Some h \<Rightarrow>
             (let ctx4 = ctx3\<lparr>handoffRequested := True, handoffTarget := Some (targetAgent h),
                              handoffReason := Some (reason h)\<rparr>
              in if autoHandoff h
                 then processHandoff w (through aliased userId ctx4 m) userId (targetAgent h)
                        (h_context h)
                 else save_and_return w m userId agentType ctx4 response))"

text \<open>The start of the turn: the context of the user or a new one (\<open>load\<close>), then the
  assignment of \<open>lastActivity\<close> and the push of the user's message (\<open>inbound\<close>).\<close>

definition load :: "world \<Rightarrow> manager \<Rightarrow> string \<Rightarrow> conv_context" where
  "load w m userId =
     (case map_of (conversationContext m) userId of Some c \<Rightarrow> c | None \<Rightarrow> fresh_context w)"

definition inbound :: "world \<Rightarrow> string \<Rightarrow> conv_context \<Rightarrow> conv_context" where
  "inbound w msg ctx0 =
     ctx0\<lparr>lastActivity := now w Activity,
          history := history ctx0 @ [UserEntry msg (now w UserTimestamp)]\<rparr>"

text \<open>The \<open>try\<close> block of \<open>processMessage(userId, message, userProfile)\<close>, on an
  initialized manager.\<close>

definition processMessage_try ::
  "world \<Rightarrow> manager \<Rightarrow> string \<Rightarrow> string \<Rightarrow> string option
     \<Rightarrow> (error + envelope) \<times> manager \<times> event list" where
  "processMessage_try w m userId msg userProfile =
     (let aliased = (map_of (conversationContext m) userId \<noteq> None);
          ctx1 = inbound w msg (load w m userId)
      in case determineAgent w m msg ctx1 userProfile of
           (agentType, calls) \<Rightarrow>
             (let ctx2 = (if currentAgent ctx1 \<noteq> Some agentType
                          then ctx1\<lparr>currentAgent := Some agentType\<rparr> else ctx1)
              in case map_of (agents m) agentType of
                   None \<Rightarrow>
                     (Inl (Error (''Agent '' @ agentType @ '' not found'')),
                      through aliased userId ctx2 m, calls)
                 | Some a \<Rightarrow>
                     (case agent_processMessage w a msg ctx2 userProfile of
                        Inl err \<Rightarrow> (Inl err, through aliased userId ctx2 m, calls)
                      | Inr response \<Rightarrow>
                          (case after_response w m aliased userId agentType ctx2 response of
                             (result, m') \<Rightarrow> (result, m', calls)))))"

text \<open>
  \<open>processMessage(userId, message, userProfile)\<close>: the manager is initialized when it
  was not, and an exception of the \<open>try\<close> block is answered in the \<open>catch\<close> block by the
  agent \<open>askme\<close>, when there is one, and thrown again otherwise.
\<close>

definition ready :: "world \<Rightarrow> manager \<Rightarrow> manager" where
  "ready w m = (if isInitialized m then m else initialize w m)"

definition processMessage ::
  "world \<Rightarrow> manager \<Rightarrow> string \<Rightarrow> string \<Rightarrow> string option
     \<Rightarrow> (error + envelope) \<times> manager \<times> event list" where
  "processMessage w m0 userId msg userProfile =
     (let m = ready w m0
      in case processMessage_try w m userId msg userProfile of
           (Inr env, m', calls) \<Rightarrow> (Inr env, m', calls)
         | (Inl err, m', calls) \<Rightarrow>
             (case map_of (agents m') ''askme'' of
                Some askMeAgent \<Rightarrow>
                  (Inr (Fallback ''askme'' (r_message (handleError w askMeAgent msg err)) True
                          (error_message err)),
                   m', calls)
              | None \<Rightarrow> (Inl err, m', calls)))"


subsection \<open>Sequences of operations\<close>

fun is_classification :: "event \<Rightarrow> bool" where
  "is_classification (ClassificationRequest content) = True"
| "is_classification (CanHandleCall name) = False"

text \<open>A turn has failed when \<open>processMessage\<close> throws or returns the object of its
  \<open>catch\<close> block.\<close>

fun failed :: "error + envelope \<Rightarrow> bool" where
  "failed (Inl err) = True"
| "failed (Inr (Fallback a msg e orig)) = True"
| "failed (Inr (Envelope a msg acts sugg h md)) = False"

text \<open>The handoff directives that the agents can give in a world name targets among
  \<open>T\<close>. Only the classes without source can give one: the classes at hand return
  \<open>formatResponse(\<dots>)\<close> or \<open>handleError(\<dots>)\<close>, which carry none.\<close>

definition directives_in :: "(string \<Rightarrow> bool) \<Rightarrow> world \<Rightarrow> bool" where
  "directives_in T w =
     list_all (\<lambda>c. case absent_processMessage w c of
                     Inl err \<Rightarrow> True
                   | Inr r \<Rightarrow> (case r_handoff r of None \<Rightarrow> True | Some h \<Rightarrow> T (targetAgent h)))
       [TravelBuddyAgent, ShopSmartAgent, GrocerAgent]"

text \<open>
  The managers that a new manager becomes through the operations of the module, in
  any world at each step, where the handoff targets named by directives and by calls of
  \<open>processHandoff\<close> are among \<open>T\<close>. (\<open>getUserContext\<close> changes nothing.)
\<close>

inductive reachable_by :: "(string \<Rightarrow> bool) \<Rightarrow> manager \<Rightarrow> bool" for T :: "string \<Rightarrow> bool" where
  start: "reachable_by T constructor"
| init: "reachable_by T m \<Longrightarrow> reachable_by T (initialize w m)"
| turn: "reachable_by T m \<Longrightarrow> directives_in T w \<Longrightarrow>
           reachable_by T (fst (snd (processMessage w m userId msg userProfile)))"
| handoff: "reachable_by T m \<Longrightarrow> T target \<Longrightarrow>
           reachable_by T (snd (processHandoff w m userId target hc))"
| clear: "reachable_by T m \<Longrightarrow> reachable_by T (clearUserContext m userId)"
| sweep: "reachable_by T m \<Longrightarrow> reachable_by T (cleanupOldContexts w m)"

definition reachable :: "manager \<Rightarrow> bool" where
  "reachable m = reachable_by (\<lambda>target. True) m"

text \<open>The default agent is in the roster of every initialized manager.\<close>

definition askme_ok :: "manager \<Rightarrow> bool" where
  "askme_ok m = (isInitialized m \<longrightarrow>
                  (\<exists>a. map_of (agents m) ''askme'' = Some a \<and> cls a = AskMeAgent))"

definition agent_ids :: "string list" where
  "agent_ids = [''foodie'', ''ridenow'', ''travelbuddy'', ''shopsmart'', ''grocer'', ''askme'']"

definition registered :: "manager \<Rightarrow> string option \<Rightarrow> bool" where
  "registered m x = (x \<in> Some ` set (getAvailableAgents m))"

text \<open>The two fields of a context that name agents are empty or name registered
  agents.\<close>

definition ctx_ok :: "manager \<Rightarrow> conv_context \<Rightarrow> bool" where
  "ctx_ok m c =
     ((currentAgent c = None \<or> registered m (currentAgent c)) \<and>
      (handoffTarget c = None \<or> registered m (handoffTarget c)))"

text \<open>An initialized manager has the six agents; a manager that is not initialized has
  no context; every stored context is \<open>ctx_ok\<close>.\<close>

definition manager_inv :: "manager \<Rightarrow> bool" where
  "manager_inv m =
     ((isInitialized m \<longrightarrow> set agent_ids \<subseteq> set (getAvailableAgents m)) \<and>
      (\<not> isInitialized m \<longrightarrow> conversationContext m = []) \<and>
      (\<forall>u c. map_of (conversationContext m) u = Some c \<longrightarrow> ctx_ok m c))"

text \<open>\<open>metadata.error === true\<close> on a response.\<close>

definition metadata_error :: "response \<Rightarrow> bool" where
  "metadata_error r =
     (case r_metadata r of None \<Rightarrow> False | Some md \<Rightarrow> map_of md ''error'' = Some (JBool True))"

text \<open>
  Names for the parts of a turn of \<open>processMessage\<close>: the agent that \<open>determineAgent\<close>
  chooses (\<open>chosen\<close>), the context when the agent is called, after the inbound message
  was pushed and \<open>currentAgent\<close> assigned (\<open>turn_context\<close>), and the history entry
  pushed for the reply of the agent (\<open>recorded\<close>).
\<close>

definition chosen :: "world \<Rightarrow> manager \<Rightarrow> string \<Rightarrow> string \<Rightarrow> string option \<Rightarrow> string" where
  "chosen w m userId msg userProfile =
     fst (determineAgent w (ready w m) msg (inbound w msg (load w m userId)) userProfile)"

definition turn_context ::
  "world \<Rightarrow> manager \<Rightarrow> string \<Rightarrow> string \<Rightarrow> string option \<Rightarrow> conv_context" where
  "turn_context w m userId msg userProfile =
     (let ctx1 = inbound w msg (load w m userId);
          agentType = chosen w m userId msg userProfile
      in if currentAgent ctx1 \<noteq> Some agentType
         then ctx1\<lparr>currentAgent := Some agentType\<rparr> else ctx1)"

definition recorded :: "world \<Rightarrow> string \<Rightarrow> response \<Rightarrow> entry" where
  "recorded w agentType response =
     AgentEntry agentType (r_message response) (now w AgentTimestamp)
       (or_empty (r_metadata response))"

subsection \<open>Worlds and managers for the examples\<close>

text \<open>
  A world in which the classes without source are plain subclasses of \<open>BaseAgent\<close>
  that override nothing: \<open>canHandle\<close> answers true, \<open>processMessage\<close> throws as
  \<open>BaseAgent.processMessage\<close> does, \<open>handleHandoff\<close> greets. The completion service
  answers \<open>content\<close>, and the body of the classes at hand answers \<open>reply\<close>.
\<close>

definition plain_world :: "string \<Rightarrow> string \<Rightarrow> world" where
  "plain_world content reply =
     \<lparr>now = (\<lambda>s. 1000), completion = Inr content,
      body = (\<lambda>c. Inr (reply, [], [])),
      absent_new = (\<lambda>c. BaseAgent c ''Agent'' []),
      absent_canHandle = (\<lambda>c. Inr True),
      absent_processMessage =
        (\<lambda>c. Inl (Error ''processMessage method must be implemented by subclass'')),
      absent_handleHandoff =
        (\<lambda>c. Inr \<lparr>r_message = generateWelcomeMessage (BaseAgent c ''Agent'' []),
                    r_actions = Some [], r_suggestions = Some [], r_handoff = None,
                    r_metadata = None, r_error = None\<rparr>)\<rparr>"

text \<open>A reply of the travel agent that hands the conversation over.\<close>

definition handoff_reply :: "string \<Rightarrow> bool \<Rightarrow> response" where
  "handoff_reply target auto =
     \<lparr>r_message = ''Let me pass you on.'', r_actions = Some [], r_suggestions = Some [],
      r_handoff = Some \<lparr>targetAgent = target, reason = ''user asked a general question'',
                        h_context = Some [(''fromAgent'', ''TravelBuddy AI'')],
                        autoHandoff = auto\<rparr>,
      r_metadata = Some [(''agent'', JStr ''TravelBuddy AI''), (''timestamp'', JNum 1000)],
      r_error = None\<rparr>"

definition handoff_world :: "string \<Rightarrow> string \<Rightarrow> bool \<Rightarrow> world" where
  "handoff_world content target auto =
     (plain_world content ''ok'')
       \<lparr>absent_processMessage := (\<lambda>c. Inr (handoff_reply target auto))\<rparr>"

text \<open>The manager after a first turn of user \<open>u1\<close> that the classification gave to the
  ride agent.\<close>

definition ride_manager :: manager where
  "ride_manager =
     fst (snd (processMessage (plain_world '' RideNow '' ''Where to?'') constructor ''u1''
                 ''find me a cab to the airport'' None))"

definition at_time :: "int \<Rightarrow> world \<Rightarrow> world" where
  "at_time t w = w\<lparr>now := (\<lambda>s. t)\<rparr>"

text \<open>User \<open>u1\<close> spoke at time 1000, user \<open>u2\<close> at time 5000.\<close>

definition two_users :: manager where
  "two_users =
     fst (snd (processMessage (at_time 5000 (plain_world ''askme'' ''Hello'')) ride_manager
                 ''u2'' ''hi'' None))"

text \<open>A world in which the body of every agent at hand throws: the ride agent was
  asked to cancel a ride, and \<open>handleRideCancellation\<close> is not defined.\<close>

definition failing_world :: world where
  "failing_world =
     (plain_world [] [])\<lparr>body := (\<lambda>c. Inl (Error ''this.handleRideCancellation is not a function''))\<rparr>"

text \<open>The manager after a first turn of \<open>u1\<close> in which the travel agent asked for a
  handoff to \<open>askme\<close> that is not automatic.\<close>

definition deferred_manager :: manager where
  "deferred_manager =
     fst (snd (processMessage (handoff_world ''travelbuddy'' ''askme'' False) constructor ''u1''
                 ''plan a trip'' None))"

text \<open>The manager after a second turn of \<open>u1\<close>, in which the travel agent asked for an
  automatic handoff to \<open>nowhere\<close>, which is no agent.\<close>

definition cex_manager :: manager where
  "cex_manager =
     fst (snd (processMessage (handoff_world ''travelbuddy'' ''nowhere'' True) deferred_manager
                 ''u1'' ''plan a trip'' None))"

text \<open>The manager after a first turn of \<open>u1\<close> in which the travel agent asked for a
  handoff, not automatic, to the travel agent.\<close>

definition self_manager :: manager where
  "self_manager =
     fst (snd (processMessage (handoff_world ''travelbuddy'' ''travelbuddy'' False) constructor
                 ''u1'' ''plan a trip'' None))"

text \<open>A world in which the classification gives the ride agent and the body of the
  ride agent throws.\<close>

definition cancel_world :: world where
  "cancel_world = failing_world\<lparr>completion := Inr ''ridenow''\<rparr>"

section \<open>Properties\<close>

subsection \<open>Sticky routing\<close>

lemma canHandle_ctx: "canHandle w a msg ctx = canHandle w a msg ctx'"
  by (simp add: canHandle_def)

text \<open>
  C1. When the context's \<open>currentAgent\<close> is set to \<open>A\<close> (a non-empty name: the empty
  string counts as not set), \<open>handoffRequested\<close> is false and the registered agent
  \<open>A\<close> answers \<open>canHandle\<close> with true, \<open>determineAgent\<close> returns \<open>A\<close> and its only
  call is that of \<open>canHandle\<close>; in the turn of \<open>processMessage\<close> that loaded this
  context no classification request is made. (The names that \<open>initialize\<close> registers
  are not empty, see \<open>registered_nonempty\<close> below.)
\<close>

theorem sticky_routing:
  assumes "currentAgent ctx = Some A" and "A \<noteq> []" and "\<not> handoffRequested ctx"
    and "map_of (agents m) A = Some a" and "canHandle w a msg ctx = Inr True"
  shows "determineAgent w m msg ctx userProfile = (A, [CanHandleCall A]) \<and>
         (isInitialized m \<and> ctx = inbound w msg (load w m userId) \<longrightarrow>
            snd (snd (processMessage w m userId msg userProfile)) = [CanHandleCall A])"
proof -
  have d: "determineAgent w m msg ctx userProfile = (A, [CanHandleCall A])"
    using assms by (simp add: determineAgent_def)
  have "snd (snd (processMessage w m userId msg userProfile)) = [CanHandleCall A]"
    if "isInitialized m" and "ctx = inbound w msg (load w m userId)"
    using that d
    by (simp add: processMessage_def processMessage_try_def ready_def Let_def
          split: prod.splits sum.splits option.splits)
  with d show ?thesis by blast
qed

theorem sticky_routing_witness:
  "(let w = plain_world ''foodie'' ''Booked''; msg = ''ok book the cheapest one'';
        ctx = inbound w msg (load w ride_manager ''u1'')
    in currentAgent ctx = Some ''ridenow'' \<and> \<not> handoffRequested ctx \<and>
       map_of (agents ride_manager) ''ridenow'' = Some new_RideNowAgent \<and>
       canHandle w new_RideNowAgent msg ctx = Inr True \<and>
       isInitialized ride_manager \<and>
       determineAgent w ride_manager msg ctx None = (''ridenow'', [CanHandleCall ''ridenow'']) \<and>
       snd (snd (processMessage w ride_manager ''u1'' msg None)) = [CanHandleCall ''ridenow''])"
proof -
  define w where "w = plain_world ''foodie'' ''Booked''"
  define ctx where "ctx = inbound w ''ok book the cheapest one'' (load w ride_manager ''u1'')"
  have h1: "currentAgent ctx = Some ''ridenow''" unfolding ctx_def w_def by code_simp
  have h2: "''ridenow'' \<noteq> []" by simp
  have h3: "\<not> handoffRequested ctx" unfolding ctx_def w_def by code_simp
  have h4: "map_of (agents ride_manager) ''ridenow'' = Some new_RideNowAgent" by code_simp
  have h5: "canHandle w new_RideNowAgent ''ok book the cheapest one'' ctx = Inr True"
    unfolding ctx_def w_def by code_simp
  have h6: "isInitialized ride_manager" by code_simp
  from sticky_routing [OF h1 h2 h3 h4 h5, of None "''u1''"] h6 ctx_def
  have "determineAgent w ride_manager ''ok book the cheapest one'' ctx None =
          (''ridenow'', [CanHandleCall ''ridenow'']) \<and>
        snd (snd (processMessage w ride_manager ''u1'' ''ok book the cheapest one'' None)) =
          [CanHandleCall ''ridenow'']"
    by blast
  with h1 h3 h4 h5 h6 show ?thesis
    unfolding Let_def w_def [symmetric] ctx_def [symmetric] by blast
qed

subsection \<open>Eviction\<close>


lemma fold_delete_old:
  "fold (\<lambda>(u, c) es. if P c then AList.delete u es else es) ys es =
     filter (\<lambda>(u, c). \<not> (\<exists>c'. (u, c') \<in> set ys \<and> P c')) es"
proof (induction ys arbitrary: es)
  case Nil
  then show ?case by simp
next
  case (Cons y ys)
  obtain k v where y: "y = (k, v)" by (cases y)
  show ?case
    unfolding y by (auto simp add: Cons.IH AList.delete_eq intro!: filter_cong)
qed

lemma sweep_filter:
  assumes "distinct (map fst xs)"
  shows "fold (\<lambda>(u, c) es. if P c then AList.delete u es else es) xs xs =
           filter (\<lambda>(u, c). \<not> P c) xs"
proof -
  have "(\<exists>c'. (u, c') \<in> set xs \<and> P c') = P c" if "(u, c) \<in> set xs" for u c
    using assms that by (metis eq_key_imp_eq_value)
  then show ?thesis
    unfolding fold_delete_old by (auto intro!: filter_cong)
qed

lemma map_of_filter_distinct:
  "distinct (map fst xs) \<Longrightarrow>
     map_of (filter P xs) u =
       (case map_of xs u of None \<Rightarrow> None | Some c \<Rightarrow> if P (u, c) then Some c else None)"
proof (induction xs)
  case Nil
  then show ?case by simp
next
  case (Cons x xs)
  obtain k v where x: "x = (k, v)" by (cases x)
  from Cons.prems have k: "k \<notin> fst ` set xs" and d: "distinct (map fst xs)"
    by (simp_all add: x)
  from k have n: "map_of xs k = None" by (simp add: map_of_eq_None_iff)
  show ?case
    using Cons.IH [OF d] n by (auto simp add: x split: option.splits)
qed

text \<open>
  C10. On a store whose keys are distinct (as the keys of a Map are), the sweep deletes
  exactly the contexts whose \<open>lastActivity\<close> is strictly before the time of the sweep
  minus 24 hours and leaves every other context present and unchanged; when no context
  is that old the sweep changes nothing; the roster is not touched.
\<close>

theorem eviction_correct:
  assumes "distinct (map fst (conversationContext m))"
  shows "getUserContext (cleanupOldContexts w m) userId =
           (case getUserContext m userId of
              None \<Rightarrow> None
            | Some ctx \<Rightarrow>
                if lastActivity ctx < now w Sweep - 24 * 60 * 60 * 1000 then None else Some ctx) \<and>
         ((\<forall>(u, ctx) \<in> set (conversationContext m).
              \<not> lastActivity ctx < now w Sweep - 24 * 60 * 60 * 1000) \<longrightarrow>
            cleanupOldContexts w m = m) \<and>
         agents (cleanupOldContexts w m) = agents m"
proof -
  let ?P = "\<lambda>c. lastActivity c < cutoffTime w"
  have c: "conversationContext (cleanupOldContexts w m) =
             filter (\<lambda>(u, c). \<not> ?P c) (conversationContext m)"
    unfolding cleanupOldContexts_def using sweep_filter [OF assms, of ?P] by simp
  have 1: "getUserContext (cleanupOldContexts w m) userId =
           (case getUserContext m userId of
              None \<Rightarrow> None
            | Some ctx \<Rightarrow>
                if lastActivity ctx < now w Sweep - 24 * 60 * 60 * 1000 then None else Some ctx)"
    unfolding getUserContext_def c map_of_filter_distinct [OF assms]
    by (simp add: cutoffTime_def split: option.splits)
  have 2: "cleanupOldContexts w m = m"
    if "\<forall>(u, ctx) \<in> set (conversationContext m).
              \<not> lastActivity ctx < now w Sweep - 24 * 60 * 60 * 1000"
  proof -
    have "filter (\<lambda>(u, c). \<not> ?P c) (conversationContext m) = conversationContext m"
      using that by (auto simp add: cutoffTime_def filter_id_conv)
    with c have "conversationContext (cleanupOldContexts w m) = conversationContext m" by simp
    then show ?thesis by (simp add: cleanupOldContexts_def)
  qed
  have 3: "agents (cleanupOldContexts w m) = agents m"
    by (simp add: cleanupOldContexts_def)
  from 1 2 3 show ?thesis by blast
qed

theorem eviction_correct_witness:
  "distinct (map fst (conversationContext two_users)) \<and>
   getUserContext two_users ''u1'' \<noteq> None \<and>
   getUserContext (cleanupOldContexts (at_time 86403000 (plain_world [] [])) two_users) ''u1'' = None \<and>
   getUserContext (cleanupOldContexts (at_time 86403000 (plain_world [] [])) two_users) ''u2'' =
     getUserContext two_users ''u2'' \<and>
   getUserContext two_users ''u2'' \<noteq> None \<and>
   list_all (\<lambda>(u, ctx). \<not> lastActivity ctx <
                 now (at_time 6000 (plain_world [] [])) Sweep - 24 * 60 * 60 * 1000)
     (conversationContext two_users) \<and>
   cleanupOldContexts (at_time 6000 (plain_world [] [])) two_users = two_users"
proof -
  let ?late = "at_time 86403000 (plain_world [] [])"
  let ?early = "at_time 6000 (plain_world [] [])"
  have d: "distinct (map fst (conversationContext two_users))" by code_simp
  have u1: "getUserContext two_users ''u1'' \<noteq> None" by code_simp
  have u2: "getUserContext two_users ''u2'' \<noteq> None" by code_simp
  have old1: "lastActivity (the (getUserContext two_users ''u1'')) < now ?late Sweep - 24 * 60 * 60 * 1000"
    by code_simp
  have new2: "\<not> lastActivity (the (getUserContext two_users ''u2'')) < now ?late Sweep - 24 * 60 * 60 * 1000"
    by code_simp
  have all: "list_all (\<lambda>(u, ctx). \<not> lastActivity ctx < now ?early Sweep - 24 * 60 * 60 * 1000)
               (conversationContext two_users)"
    by code_simp
  then have none: "\<forall>(u, ctx) \<in> set (conversationContext two_users).
       \<not> lastActivity ctx < now ?early Sweep - 24 * 60 * 60 * 1000"
    by (simp only: list_all_iff)
  from eviction_correct [OF d, of ?late "''u1''"] u1 old1
  have a: "getUserContext (cleanupOldContexts ?late two_users) ''u1'' = None"
    by (auto split: option.splits)
  from eviction_correct [OF d, of ?late "''u2''"] u2 new2
  have b: "getUserContext (cleanupOldContexts ?late two_users) ''u2'' = getUserContext two_users ''u2''"
    by (auto split: option.splits)
  from eviction_correct [OF d, of ?early "''u1''"] none
  have c: "cleanupOldContexts ?early two_users = two_users"
    by blast
  from d u1 u2 a b c all show ?thesis by blast
qed

subsection \<open>What the operations leave unchanged\<close>


lemma agents_store [simp]: "agents (store u c m) = agents m"
  and isInitialized_store [simp]: "isInitialized (store u c m) = isInitialized m"
  and context_store [simp]:
    "conversationContext (store u c m) = AList.update u c (conversationContext m)"
  by (simp_all add: store_def)

lemma agents_through [simp]: "agents (through b u c m) = agents m"
  and isInitialized_through [simp]: "isInitialized (through b u c m) = isInitialized m"
  by (simp_all add: through_def)

lemma agents_cleanup [simp]: "agents (cleanupOldContexts w m) = agents m"
  and isInitialized_cleanup [simp]:
    "isInitialized (cleanupOldContexts w m) = isInitialized m"
  by (simp_all add: cleanupOldContexts_def)

lemma agents_processHandoff [simp]:
  "agents (snd (processHandoff w m u t hc)) = agents m"
  and isInitialized_processHandoff [simp]:
  "isInitialized (snd (processHandoff w m u t hc)) = isInitialized m"
  by (simp_all add: processHandoff_def Let_def split: option.splits sum.splits)

lemma agents_after_response [simp]:
  "agents (snd (after_response w m b u t c r)) = agents m"
  and isInitialized_after_response [simp]:
  "isInitialized (snd (after_response w m b u t c r)) = isInitialized m"
  by (simp_all add: after_response_def save_and_return_def Let_def split: option.splits)

lemma agents_processMessage_try [simp]:
  "agents (fst (snd (processMessage_try w m u msg p))) = agents m"
  and isInitialized_processMessage_try [simp]:
  "isInitialized (fst (snd (processMessage_try w m u msg p))) = isInitialized m"
  by (simp_all add: processMessage_try_def Let_def split: prod.splits option.splits sum.splits)
    (metis agents_after_response isInitialized_after_response snd_conv)+

lemma isInitialized_ready [simp]: "isInitialized (ready w m)"
  by (simp add: ready_def initialize_def)

lemma context_ready [simp]: "conversationContext (ready w m) = conversationContext m"
  by (simp add: ready_def initialize_def)

lemma processMessage_manager:
  "fst (snd (processMessage w m u msg p)) = fst (snd (processMessage_try w (ready w m) u msg p))"
  by (simp add: processMessage_def Let_def split: prod.splits sum.splits option.splits)

lemma processMessage_calls:
  "snd (snd (processMessage w m u msg p)) = snd (snd (processMessage_try w (ready w m) u msg p))"
  by (simp add: processMessage_def Let_def split: prod.splits sum.splits option.splits)

lemma agents_processMessage [simp]:
  "agents (fst (snd (processMessage w m u msg p))) = agents (ready w m)"
  and isInitialized_processMessage [simp]:
  "isInitialized (fst (snd (processMessage w m u msg p)))"
  by (simp_all add: processMessage_manager)

lemma askme_initialize:
  "map_of (agents (initialize w m)) ''askme'' = Some new_AskMeAgent"
  by (simp add: initialize_def update_conv')

lemma cls_new_AskMeAgent [simp]: "cls new_AskMeAgent = AskMeAgent"
  by (simp add: new_AskMeAgent_def BaseAgent_def)

lemma reachable_by_askme_ok: "reachable_by T m \<Longrightarrow> askme_ok m"
proof (induction rule: reachable_by.induct)
  case start
  then show ?case by (simp add: askme_ok_def constructor_def)
next
  case (init m w)
  then show ?case by (simp add: askme_ok_def askme_initialize)
next
  case (turn m w userId msg userProfile)
  then show ?case by (simp add: askme_ok_def ready_def askme_initialize)
next
  case (handoff m target w userId hc)
  then show ?case by (simp add: askme_ok_def)
next
  case (clear m userId)
  then show ?case by (simp add: askme_ok_def clearUserContext_def)
next
  case (sweep m w)
  then show ?case by (simp add: askme_ok_def)
qed

lemma ready_askme:
  "reachable_by T m \<Longrightarrow> \<exists>a. map_of (agents (ready w m)) ''askme'' = Some a \<and> cls a = AskMeAgent"
  using reachable_by_askme_ok [of T m]
  by (cases "isInitialized m") (auto simp add: askme_ok_def ready_def askme_initialize)

lemma determineAgent_classified:
  "list_ex is_classification (snd (determineAgent w m msg ctx p)) \<Longrightarrow>
     fst (determineAgent w m msg ctx p) = fst (classify w m msg ctx p)"
  by (auto simp add: determineAgent_def split: if_splits option.splits sum.splits bool.splits prod.splits)

lemma classify_fallback:
  assumes "case completion w of
             Inl err \<Rightarrow> True
           | Inr content \<Rightarrow> toLowerCase (trim content) \<notin> set (getAvailableAgents m)"
  shows "fst (classify w m msg ctx p) = ''askme''"
  using assms
  by (auto simp add: classify_def getAvailableAgents_def Let_def map_of_eq_None_iff
        split: sum.splits)

lemma askme_never_hands_off:
  assumes "cls a = AskMeAgent"
  shows "\<exists>r. agent_processMessage w a msg ctx p = Inr r \<and> r_handoff r = None"
  using assms
  by (auto simp add: agent_processMessage_def handleError_def formatResponse_def
        split: sum.splits prod.splits)

lemma askme_turn:
  assumes "map_of (agents m) ''askme'' = Some a" and "cls a = AskMeAgent"
    and "fst (determineAgent w m msg (inbound w msg (load w m userId)) p) = ''askme''"
  shows "\<exists>text acts sugg md.
           fst (processMessage_try w m userId msg p) = Inr (Envelope ''askme'' text acts sugg HNull md)"
proof -
  obtain r where r: "agent_processMessage w a msg
                       (let c = inbound w msg (load w m userId)
                        in if currentAgent c \<noteq> Some ''askme'' then c\<lparr>currentAgent := Some ''askme''\<rparr> else c)
                       p = Inr r"
    and h: "r_handoff r = None"
    using askme_never_hands_off [OF assms(2)] by blast
  obtain calls where d: "determineAgent w m msg (inbound w msg (load w m userId)) p = (''askme'', calls)"
    using assms(3) by (cases "determineAgent w m msg (inbound w msg (load w m userId)) p") simp
  show ?thesis
    using r h assms(1)
    by (simp add: processMessage_try_def d Let_def after_response_def save_and_return_def
          handoff_or_null_def split: prod.splits)
qed

subsection \<open>Fallback to the default agent\<close>

text \<open>
  C7. In every turn on a manager that the operations of the module have produced, in
  which the classification is requested and the completion service throws or returns
  a text whose trimmed, lowered form is no registered identifier, \<open>processMessage\<close>
  returns (does not throw) the normal envelope with \<open>agent = askme\<close>.
\<close>

theorem fallback_guarantee:
  assumes "reachable m"
    and "list_ex is_classification (snd (snd (processMessage w m userId msg p)))"
    and "case completion w of
           Inl err \<Rightarrow> True
         | Inr content \<Rightarrow> toLowerCase (trim content) \<notin> set (getAvailableAgents (ready w m))"
  shows "\<exists>text acts sugg md.
           fst (processMessage w m userId msg p) = Inr (Envelope ''askme'' text acts sugg HNull md)"
proof -
  let ?m = "ready w m"
  let ?ctx = "inbound w msg (load w ?m userId)"
  obtain a where a: "map_of (agents ?m) ''askme'' = Some a" "cls a = AskMeAgent"
    using ready_askme assms(1) unfolding reachable_def by blast
  have "snd (snd (processMessage_try w ?m userId msg p)) = snd (determineAgent w ?m msg ?ctx p)"
    by (simp add: processMessage_try_def Let_def split: prod.splits option.splits sum.splits)
  with assms(2) have "list_ex is_classification (snd (determineAgent w ?m msg ?ctx p))"
    by (simp add: processMessage_calls)
  then have "fst (determineAgent w ?m msg ?ctx p) = ''askme''"
    using determineAgent_classified classify_fallback [OF assms(3)] by simp
  from askme_turn [OF a this]
  obtain reply acts sugg md
    where "fst (processMessage_try w ?m userId msg p) = Inr (Envelope ''askme'' reply acts sugg HNull md)"
    by blast
  then have "fst (processMessage w m userId msg p) = Inr (Envelope ''askme'' reply acts sugg HNull md)"
    by (auto simp add: processMessage_def Let_def split: prod.splits sum.splits)
  then show ?thesis by blast
qed

theorem fallback_guarantee_witness:
  "reachable constructor \<and>
   list_ex is_classification
     (snd (snd (processMessage (plain_world ''I think: weather'' ''Hello'') constructor ''u1''
                  ''what is the weather'' None))) \<and>
   ''i think: weather'' \<notin> set (getAvailableAgents (ready (plain_world ''I think: weather'' ''Hello'') constructor)) \<and>
   (\<exists>text acts sugg md.
      fst (processMessage (plain_world ''I think: weather'' ''Hello'') constructor ''u1''
             ''what is the weather'' None) = Inr (Envelope ''askme'' text acts sugg HNull md))"
proof -
  let ?w = "plain_world ''I think: weather'' ''Hello''"
  have r: "reachable constructor"
    unfolding reachable_def by (rule reachable_by.start)
  have c: "list_ex is_classification
             (snd (snd (processMessage ?w constructor ''u1'' ''what is the weather'' None)))"
    by code_simp
  have n: "''i think: weather'' \<notin> set (getAvailableAgents (ready ?w constructor))"
    by code_simp
  have h: "case completion ?w of
             Inl err \<Rightarrow> True
           | Inr content \<Rightarrow> toLowerCase (trim content) \<notin> set (getAvailableAgents (ready ?w constructor))"
    by code_simp
  from fallback_guarantee [OF r c h] r c n show ?thesis by blast
qed

subsection \<open>Failures of a turn\<close>

text \<open>
  C4, as the code has it. On a manager that the operations of the module have produced,
  \<open>processMessage\<close> never throws; when its \<open>try\<close> block fails with an error, it
  returns the object \<open>{agent: askme, message, error: true, originalError}\<close>, whose
  message is the apology of \<open>AskMeAgent.handleError\<close> and whose \<open>originalError\<close> is
  the message of the error.
\<close>

theorem propagation_policy_amended:
  assumes "reachable m"
  shows "(\<exists>env. fst (processMessage w m userId msg p) = Inr env) \<and>
         (\<forall>err m' calls.
            processMessage_try w (ready w m) userId msg p = (Inl err, m', calls) \<longrightarrow>
            processMessage w m userId msg p =
              (Inr (Fallback ''askme'' apology_AskMeAgent True (error_message err)), m', calls))"
proof -
  obtain a where a: "map_of (agents (ready w m)) ''askme'' = Some a" "cls a = AskMeAgent"
    using ready_askme assms unfolding reachable_def by blast
  obtain res m' calls where t: "processMessage_try w (ready w m) userId msg p = (res, m', calls)"
    by (cases "processMessage_try w (ready w m) userId msg p") auto
  have "agents m' = agents (ready w m)"
    using agents_processMessage_try [of w "ready w m" userId msg p] by (simp add: t)
  with a have a': "map_of (agents m') ''askme'' = Some a" by simp
  have e: "r_message (handleError w a msg err) = apology_AskMeAgent" for err
    by (simp add: handleError_def a(2) formatResponse_def)
  show ?thesis
    by (cases res) (simp_all add: processMessage_def t a' e)
qed

theorem propagation_policy_amended_witness:
  "reachable constructor \<and>
   fst (processMessage_try (plain_world ''travelbuddy'' []) (ready (plain_world ''travelbuddy'' []) constructor)
          ''u1'' ''plan a trip'' None) =
     Inl (Error ''processMessage method must be implemented by subclass'') \<and>
   fst (processMessage (plain_world ''travelbuddy'' []) constructor ''u1'' ''plan a trip'' None) =
     Inr (Fallback ''askme'' apology_AskMeAgent True
            ''processMessage method must be implemented by subclass'')"
proof -
  let ?w = "plain_world ''travelbuddy'' []"
  have r: "reachable constructor"
    unfolding reachable_def by (rule reachable_by.start)
  have f: "fst (processMessage_try ?w (ready ?w constructor) ''u1'' ''plan a trip'' None) =
             Inl (Error ''processMessage method must be implemented by subclass'')"
    by code_simp
  then obtain m' calls
    where "processMessage_try ?w (ready ?w constructor) ''u1'' ''plan a trip'' None =
             (Inl (Error ''processMessage method must be implemented by subclass''), m', calls)"
    by (cases "processMessage_try ?w (ready ?w constructor) ''u1'' ''plan a trip'' None") auto
  with propagation_policy_amended [OF r, of ?w "''u1''" "''plan a trip''" None]
  have "fst (processMessage ?w constructor ''u1'' ''plan a trip'' None) =
     Inr (Fallback ''askme'' apology_AskMeAgent True
            ''processMessage method must be implemented by subclass'')"
    by simp
  with r f show ?thesis by blast
qed

theorem propagation_policy_counterexample:
  "fst (processMessage (plain_world ''travelbuddy'' []) constructor ''u1'' ''plan a trip'' None) =
     Inr (Fallback ''askme'' apology_AskMeAgent True
            ''processMessage method must be implemented by subclass'') \<and>
   \<not> well_formed (Fallback ''askme'' apology_AskMeAgent True
            ''processMessage method must be implemented by subclass'') \<and>
   originalError (Fallback ''askme'' apology_AskMeAgent True
            ''processMessage method must be implemented by subclass'') =
     Some (error_message (Error ''processMessage method must be implemented by subclass''))"
  by code_simp

subsection \<open>The roster query\<close>

text \<open>
  C9. After initialization \<open>getAvailableAgents\<close> returns the six registered
  identifiers, and \<open>getAgentStatus\<close> raises: the first agent's \<open>isActive\<close> is the
  boolean \<open>true\<close>, which the method calls as a function.
\<close>

theorem agent_status_raises:
  "getAvailableAgents (initialize w constructor) = agent_ids \<and>
   getAgentStatus (initialize w constructor) = Inl (Error ''agent.isActive is not a function'')"
  by (simp add: getAvailableAgents_def getAgentStatus_def initialize_def constructor_def
        agent_ids_def new_FoodieAgent_def BaseAgent_def)

subsection \<open>Degraded responses of the agents\<close>

text \<open>
  C8, as the code has it. When the body of \<open>processMessage\<close> of one of the agent
  classes at hand throws, \<open>processMessage\<close> does not throw and returns the response of
  \<open>handleError\<close>. For the classes that inherit \<open>BaseAgent.handleError\<close> this is
  \<open>{message, error: true}\<close>, with the flag at the top of the object and no metadata;
  for \<open>AskMeAgent\<close> it is the formatted apology.
\<close>

theorem degraded_response_amended:
  assumes "cls a \<in> {FoodieAgent, RideNowAgent, AskMeAgent}" and "body w (cls a) = Inl err"
  shows "agent_processMessage w a msg ctx p = Inr (handleError w a msg err) \<and>
         (cls a \<noteq> AskMeAgent \<longrightarrow>
            handleError w a msg err =
              \<lparr>r_message = apology_BaseAgent, r_actions = None, r_suggestions = None,
               r_handoff = None, r_metadata = None, r_error = Some True\<rparr>) \<and>
         (cls a = AskMeAgent \<longrightarrow> r_message (handleError w a msg err) = apology_AskMeAgent)"
  using assms
  by (auto simp add: agent_processMessage_def handleError_def formatResponse_def)


theorem degraded_response_amended_witness:
  "cls new_RideNowAgent \<in> {FoodieAgent, RideNowAgent, AskMeAgent} \<and>
   cls new_RideNowAgent \<noteq> AskMeAgent \<and>
   body failing_world (cls new_RideNowAgent) =
     Inl (Error ''this.handleRideCancellation is not a function'') \<and>
   agent_processMessage failing_world new_RideNowAgent ''cancel my ride'' (fresh_context failing_world) None =
     Inr \<lparr>r_message = apology_BaseAgent, r_actions = None, r_suggestions = None,
          r_handoff = None, r_metadata = None, r_error = Some True\<rparr> \<and>
   cls new_AskMeAgent = AskMeAgent \<and>
   body failing_world (cls new_AskMeAgent) =
     Inl (Error ''this.handleRideCancellation is not a function'') \<and>
   r_message (handleError failing_world new_AskMeAgent ''cancel my ride''
                (Error ''this.handleRideCancellation is not a function'')) = apology_AskMeAgent"
proof -
  let ?e = "Error ''this.handleRideCancellation is not a function''"
  have c: "cls new_RideNowAgent \<in> {FoodieAgent, RideNowAgent, AskMeAgent}" by code_simp
  have n: "cls new_RideNowAgent \<noteq> AskMeAgent" by code_simp
  have b: "body failing_world (cls new_RideNowAgent) = Inl ?e" by code_simp
  have c': "cls new_AskMeAgent \<in> {FoodieAgent, RideNowAgent, AskMeAgent}" by code_simp
  have n': "cls new_AskMeAgent = AskMeAgent" by code_simp
  have b': "body failing_world (cls new_AskMeAgent) = Inl ?e" by code_simp
  from degraded_response_amended [OF c b, of "''cancel my ride''" "fresh_context failing_world" None] n
  have 1: "agent_processMessage failing_world new_RideNowAgent ''cancel my ride'' (fresh_context failing_world) None =
     Inr \<lparr>r_message = apology_BaseAgent, r_actions = None, r_suggestions = None,
          r_handoff = None, r_metadata = None, r_error = Some True\<rparr>"
    by simp
  from degraded_response_amended [OF c' b', of "''cancel my ride''" "fresh_context failing_world" None] n'
  have 2: "r_message (handleError failing_world new_AskMeAgent ''cancel my ride'' ?e) = apology_AskMeAgent"
    by blast
  from c n b 1 n' b' 2 show ?thesis by blast
qed

text \<open>C8 as stated fails: the degraded response of the ride agent has no metadata, and
  the metadata of the degraded response of \<open>AskMeAgent\<close> has no \<open>error\<close>.\<close>

theorem degraded_response_counterexample:
  "agent_processMessage failing_world new_RideNowAgent ''cancel my ride'' (fresh_context failing_world) None =
     Inr \<lparr>r_message = apology_BaseAgent, r_actions = None, r_suggestions = None,
          r_handoff = None, r_metadata = None, r_error = Some True\<rparr> \<and>
   \<not> metadata_error \<lparr>r_message = apology_BaseAgent, r_actions = None, r_suggestions = None,
          r_handoff = None, r_metadata = None, r_error = Some True\<rparr> \<and>
   \<not> metadata_error (handleError failing_world new_AskMeAgent ''cancel my ride''
                        (Error ''this.handleRideCancellation is not a function''))"
  by code_simp

subsection \<open>A pending handoff\<close>

text \<open>
  C2, as the code has it. In a turn whose context has \<open>handoffRequested\<close> true,
  \<open>determineAgent\<close> does not call \<open>canHandle\<close>, makes exactly one classification
  request and returns the classified identifier when it is registered and \<open>askme\<close>
  otherwise; the recorded \<open>handoffTarget\<close> is not read.
\<close>

theorem deferred_handoff_amended:
  assumes "handoffRequested ctx"
  shows "determineAgent w m msg ctx p = classify w m msg ctx p \<and>
         snd (classify w m msg ctx p) = [ClassificationRequest (classification_content msg ctx p)] \<and>
         fst (classify w m msg ctx p) =
           (case completion w of
              Inl err \<Rightarrow> ''askme''
            | Inr content \<Rightarrow>
                if toLowerCase (trim content) \<in> set (getAvailableAgents m)
                then toLowerCase (trim content) else ''askme'')"
  using assms
  by (auto simp add: determineAgent_def classify_def Let_def getAvailableAgents_def
        map_of_eq_None_iff split: sum.splits)


theorem deferred_handoff_amended_witness:
  "handoffRequested (load (plain_world ''foodie'' ''Menu'') deferred_manager ''u1'') \<and>
   determineAgent (plain_world ''foodie'' ''Menu'') deferred_manager ''show me pizza''
     (load (plain_world ''foodie'' ''Menu'') deferred_manager ''u1'') None =
   (''foodie'', [ClassificationRequest
       (classification_content ''show me pizza''
          (load (plain_world ''foodie'' ''Menu'') deferred_manager ''u1'') None)])"
proof -
  let ?w = "plain_world ''foodie'' ''Menu''"
  let ?c = "load ?w deferred_manager ''u1''"
  have h: "handoffRequested ?c" by code_simp
  have f: "(case completion ?w of
              Inl err \<Rightarrow> ''askme''
            | Inr content \<Rightarrow>
                if toLowerCase (trim content) \<in> set (getAvailableAgents deferred_manager)
                then toLowerCase (trim content) else ''askme'') = ''foodie''"
    by code_simp
  note t = deferred_handoff_amended [OF h, of ?w deferred_manager "''show me pizza''" None]
  from t have d: "determineAgent ?w deferred_manager ''show me pizza'' ?c None =
                    classify ?w deferred_manager ''show me pizza'' ?c None"
    by (rule conjunct1)
  from t have s: "snd (classify ?w deferred_manager ''show me pizza'' ?c None) =
                    [ClassificationRequest (classification_content ''show me pizza'' ?c None)]"
    by (rule conjunct1 [OF conjunct2])
  from t have "fst (classify ?w deferred_manager ''show me pizza'' ?c None) =
           (case completion ?w of
              Inl err \<Rightarrow> ''askme''
            | Inr content \<Rightarrow>
                if toLowerCase (trim content) \<in> set (getAvailableAgents deferred_manager)
                then toLowerCase (trim content) else ''askme'')"
    by (rule conjunct2 [OF conjunct2])
  then have g: "fst (classify ?w deferred_manager ''show me pizza'' ?c None) = ''foodie''"
    by (simp only: f)
  have "determineAgent ?w deferred_manager ''show me pizza'' ?c None =
          (''foodie'', [ClassificationRequest (classification_content ''show me pizza'' ?c None)])"
    unfolding d using g s by (simp only: prod_eq_iff fst_conv snd_conv simp_thms)
  with h show ?thesis by blast
qed

text \<open>C2 as stated fails: with a handoff to \<open>askme\<close> pending, the next turn asks the
  completion service and goes to \<open>foodie\<close>.\<close>

theorem deferred_handoff_counterexample:
  "handoffRequested (load (plain_world ''foodie'' ''Menu'') deferred_manager ''u1'') \<and>
   handoffTarget (load (plain_world ''foodie'' ''Menu'') deferred_manager ''u1'') = Some ''askme'' \<and>
   map_of (agents deferred_manager) ''askme'' \<noteq> None \<and>
   fst (determineAgent (plain_world ''foodie'' ''Menu'') deferred_manager ''show me pizza''
          (inbound (plain_world ''foodie'' ''Menu'') ''show me pizza''
             (load (plain_world ''foodie'' ''Menu'') deferred_manager ''u1'')) None) = ''foodie'' \<and>
   list_ex is_classification
     (snd (snd (processMessage (plain_world ''foodie'' ''Menu'') deferred_manager ''u1''
                  ''show me pizza'' None))) \<and>
   fst (processMessage (plain_world ''foodie'' ''Menu'') deferred_manager ''u1'' ''show me pizza'' None) =
     Inr (Envelope ''foodie'' ''Menu'' [] [] HNull
            [(''agent'', JStr ''Foodie AI''), (''timestamp'', JNum 1000)])"
  by code_simp

subsection \<open>An automatic handoff\<close>

text \<open>
  C3. In the first turn of a user the context is not yet in the Map when
  \<open>processHandoff\<close> looks it up: the automatic handoff to \<open>foodie\<close> throws, the turn
  returns the object of the \<open>catch\<close> block with \<open>agent = askme\<close>, and no context is
  stored for the user.
\<close>

theorem auto_handoff_first_turn:
  "fst (processMessage (handoff_world ''travelbuddy'' ''foodie'' True) constructor ''u1''
          ''plan a trip'' None) =
     Inr (Fallback ''askme'' apology_AskMeAgent True ''No conversation context found for handoff'') \<and>
   getUserContext
     (fst (snd (processMessage (handoff_world ''travelbuddy'' ''foodie'' True) constructor ''u1''
                  ''plan a trip'' None))) ''u1'' = None"
  by code_simp

text \<open>For a user whose context is in the Map (the local object is aliased) the
  automatic handoff to a registered agent whose \<open>handleHandoff\<close> returns goes through:
  the envelope names the target, and the stored context has the target as
  \<open>currentAgent\<close> and no pending handoff.\<close>

lemma handleHandoff_ctx: "handleHandoff w a hc c = handleHandoff w a hc c'"
  by (simp add: handleHandoff_def)

lemma auto_handoff_existing:
  assumes "r_handoff r = Some h" and "autoHandoff h"
    and "map_of (agents m) (targetAgent h) = Some b"
    and "handleHandoff w b (or_empty (h_context h)) c = Inr r'"
  shows "\<exists>c'. after_response w m True u t c r =
           (Inr (Envelope (targetAgent h) (r_message r') (or_empty (r_actions r'))
                   (or_empty (r_suggestions r')) HTrue (or_empty (r_metadata r'))),
            store u c' m) \<and>
           currentAgent c' = Some (targetAgent h) \<and> \<not> handoffRequested c' \<and>
           handoffTarget c' = None"
proof -
  let ?c4 = "c\<lparr>history := history c @
                 [AgentEntry t (r_message r) (now w AgentTimestamp) (or_empty (r_metadata r))],
               handoffRequested := True, handoffTarget := Some (targetAgent h),
               handoffReason := Some (reason h)\<rparr>"
  let ?c5 = "?c4\<lparr>handoffRequested := False, handoffTarget := None, handoffReason := None,
                  currentAgent := Some (targetAgent h),
                  handoffContext := Some (or_empty (h_context h))\<rparr>"
  have e: "after_response w m True u t c r =
             processHandoff w (store u ?c4 m) u (targetAgent h) (h_context h)"
    using assms(1,2) by (simp add: after_response_def Let_def through_def)
  have hh: "handleHandoff w b (or_empty (h_context h)) x = Inr r'" for x
    using assms(4) handleHandoff_ctx [of w b "or_empty (h_context h)" x c] by simp
  have s: "store u c2 (store u c1 m) = store u c2 m" for c1 c2
    by (simp add: store_def)
  show ?thesis
    unfolding e
    by (rule exI [of _ "?c5\<lparr>history := history ?c5 @
                  [HandoffEntry (fromAgent_or_unknown (or_empty (h_context h))) (targetAgent h)
                     (r_message r') (now w HandoffTimestamp) (or_empty (r_metadata r'))]\<rparr>"])
       (simp add: processHandoff_def Let_def update_conv' assms(3) hh s)
qed

text \<open>The same handoff as above, for a user whose context is in the Map.\<close>

lemma auto_handoff_existing_user:
  "fst (processMessage (handoff_world ''travelbuddy'' ''foodie'' True) ride_manager ''u1''
          ''plan a trip'' None) =
     Inr (Envelope ''foodie'' (generateWelcomeMessage new_FoodieAgent) []
            [''Popular restaurants'', ''Order again'', ''Cuisine categories'', ''Deals & offers'']
            HTrue []) \<and>
   map_option currentAgent
     (getUserContext
       (fst (snd (processMessage (handoff_world ''travelbuddy'' ''foodie'' True) ride_manager ''u1''
                  ''plan a trip'' None))) ''u1'') = Some (Some ''foodie'') \<and>
   map_option handoffRequested
     (getUserContext
       (fst (snd (processMessage (handoff_world ''travelbuddy'' ''foodie'' True) ride_manager ''u1''
                  ''plan a trip'' None))) ''u1'') = Some False"
  by code_simp

subsection \<open>The invariant of the contexts\<close>

lemma ctx_ok_agents: "agents m' = agents m \<Longrightarrow> ctx_ok m' c = ctx_ok m c"
  unfolding ctx_ok_def registered_def getAvailableAgents_def by simp

lemma manager_inv_ids:
  "manager_inv m \<Longrightarrow> isInitialized m \<Longrightarrow> set agent_ids \<subseteq> set (getAvailableAgents m)"
  unfolding manager_inv_def by blast

lemma manager_inv_empty:
  "manager_inv m \<Longrightarrow> \<not> isInitialized m \<Longrightarrow> conversationContext m = []"
  unfolding manager_inv_def by blast

lemma manager_inv_ctx:
  "manager_inv m \<Longrightarrow> map_of (conversationContext m) u = Some c \<Longrightarrow> ctx_ok m c"
  unfolding manager_inv_def by blast

lemma manager_invI:
  assumes "isInitialized m \<Longrightarrow> set agent_ids \<subseteq> set (getAvailableAgents m)"
    and "\<not> isInitialized m \<Longrightarrow> conversationContext m = []"
    and "\<And>u c. map_of (conversationContext m) u = Some c \<Longrightarrow> ctx_ok m c"
  shows "manager_inv m"
  unfolding manager_inv_def using assms by blast

lemma keys_initialize:
  "set (getAvailableAgents (initialize w m)) = set agent_ids \<union> set (getAvailableAgents m)"
  by (auto simp add: getAvailableAgents_def initialize_def agent_ids_def dom_update)

lemma registered_initialize: "registered m x \<Longrightarrow> registered (initialize w m) x"
  unfolding registered_def keys_initialize by blast

lemma ctx_ok_initialize: "ctx_ok m c \<Longrightarrow> ctx_ok (initialize w m) c"
  unfolding ctx_ok_def using registered_initialize by blast

lemma context_initialize [simp]:
  "conversationContext (initialize w m) = conversationContext m"
  and isInitialized_initialize [simp]: "isInitialized (initialize w m)"
  by (simp_all add: initialize_def)

lemma inv_initialize:
  assumes "manager_inv m"
  shows "manager_inv (initialize w m)"
proof (rule manager_invI)
  show "set agent_ids \<subseteq> set (getAvailableAgents (initialize w m))"
    by (simp add: keys_initialize)
  show "conversationContext (initialize w m) = []" if "\<not> isInitialized (initialize w m)"
    using that by simp
  show "ctx_ok (initialize w m) c" if "map_of (conversationContext (initialize w m)) u = Some c" for u c
    using that manager_inv_ctx [OF assms, of u c] by (simp add: ctx_ok_initialize)
qed

lemma inv_ready: "manager_inv m \<Longrightarrow> manager_inv (ready w m)"
  by (simp add: ready_def inv_initialize)

lemma inv_store:
  assumes "manager_inv m" and "isInitialized m" and "ctx_ok m c"
  shows "manager_inv (store u c m)"
proof (rule manager_invI)
  have a: "agents (store u c m) = agents m" by simp
  show "set agent_ids \<subseteq> set (getAvailableAgents (store u c m))"
    using manager_inv_ids [OF assms(1,2)] by (simp add: getAvailableAgents_def)
  show "conversationContext (store u c m) = []" if "\<not> isInitialized (store u c m)"
    using that assms(2) by simp
  show "ctx_ok (store u c m) c'" if "map_of (conversationContext (store u c m)) u' = Some c'" for u' c'
  proof (cases "u' = u")
    case True
    with that have "c' = c" by (simp add: update_conv')
    with assms(3) show ?thesis by (simp add: ctx_ok_agents [OF a])
  next
    case False
    with that have "map_of (conversationContext m) u' = Some c'" by (simp add: update_conv')
    from manager_inv_ctx [OF assms(1) this] show ?thesis by (simp add: ctx_ok_agents [OF a])
  qed
qed

lemma inv_through:
  "manager_inv m \<Longrightarrow> isInitialized m \<Longrightarrow> ctx_ok m c \<Longrightarrow> manager_inv (through b u c m)"
  by (simp add: through_def inv_store)

lemma map_of_filter_key_None:
  "\<not> K u \<Longrightarrow> map_of (filter (\<lambda>(k, v). K k) xs) u = None"
  by (induction xs) auto

lemma map_of_filter_key:
  "map_of (filter (\<lambda>(k, v). K k) xs) u = Some c \<Longrightarrow> map_of xs u = Some c"
  by (induction xs) (auto simp add: map_of_filter_key_None split: if_splits)

lemma cleanup_Some:
  assumes "map_of (conversationContext (cleanupOldContexts w m)) u = Some c"
  shows "map_of (conversationContext m) u = Some c"
proof -
  let ?K = "\<lambda>u. \<not> (\<exists>c'. (u, c') \<in> set (conversationContext m) \<and> lastActivity c' < cutoffTime w)"
  have "conversationContext (cleanupOldContexts w m) =
          fold (\<lambda>(userId, ctx) entries.
                 if lastActivity ctx < cutoffTime w then AList.delete userId entries else entries)
              (conversationContext m) (conversationContext m)"
    by (simp add: cleanupOldContexts_def)
  also have "\<dots> = filter (\<lambda>(k, v). ?K k) (conversationContext m)"
    by (rule fold_delete_old)
  finally have "map_of (filter (\<lambda>(k, v). ?K k) (conversationContext m)) u = Some c"
    using assms by simp
  then show ?thesis by (rule map_of_filter_key)
qed

lemma inv_cleanup:
  assumes "manager_inv m"
  shows "manager_inv (cleanupOldContexts w m)"
proof (rule manager_invI)
  have a: "agents (cleanupOldContexts w m) = agents m" by simp
  show "set agent_ids \<subseteq> set (getAvailableAgents (cleanupOldContexts w m))"
    if "isInitialized (cleanupOldContexts w m)"
    using that manager_inv_ids [OF assms] by (simp add: getAvailableAgents_def)
  show "conversationContext (cleanupOldContexts w m) = []"
    if "\<not> isInitialized (cleanupOldContexts w m)"
    using that manager_inv_empty [OF assms] by (simp add: cleanupOldContexts_def)
  show "ctx_ok (cleanupOldContexts w m) c"
    if "map_of (conversationContext (cleanupOldContexts w m)) u = Some c" for u c
    using manager_inv_ctx [OF assms cleanup_Some [OF that]] by (simp add: ctx_ok_agents [OF a])
qed

lemma inv_clear:
  assumes "manager_inv m"
  shows "manager_inv (clearUserContext m u)"
proof (rule manager_invI)
  have a: "agents (clearUserContext m u) = agents m" by (simp add: clearUserContext_def)
  have i: "isInitialized (clearUserContext m u) = isInitialized m"
    by (simp add: clearUserContext_def)
  show "set agent_ids \<subseteq> set (getAvailableAgents (clearUserContext m u))"
    if "isInitialized (clearUserContext m u)"
    using that manager_inv_ids [OF assms] by (simp add: getAvailableAgents_def a i)
  show "conversationContext (clearUserContext m u) = []"
    if "\<not> isInitialized (clearUserContext m u)"
    using that manager_inv_empty [OF assms] by (simp add: clearUserContext_def)
  show "ctx_ok (clearUserContext m u) c"
    if "map_of (conversationContext (clearUserContext m u)) u' = Some c" for u' c
  proof -
    from that have "map_of (conversationContext m) u' = Some c"
      by (simp add: clearUserContext_def delete_conv' split: if_splits)
    from manager_inv_ctx [OF assms this] show ?thesis by (simp add: ctx_ok_agents [OF a])
  qed
qed

lemma registered_Some: "registered m (Some t) = (t \<in> set (getAvailableAgents m))"
  unfolding registered_def by blast

lemma ctx_ok_handed:
  assumes "registered m (Some t)"
  shows "ctx_ok m (c\<lparr>handoffRequested := False, handoffTarget := None, handoffReason := None,
                     currentAgent := Some t, handoffContext := Some hc\<rparr>)"
    and "ctx_ok m (c\<lparr>handoffRequested := False, handoffTarget := None, handoffReason := None,
                     currentAgent := Some t, handoffContext := Some hc, history := hs\<rparr>)"
  using assms by (simp_all add: ctx_ok_def)

lemma inv_processHandoff:
  assumes "manager_inv m" and "isInitialized m \<Longrightarrow> registered m (Some t)"
  shows "manager_inv (snd (processHandoff w m u t hc))"
proof (cases "map_of (conversationContext m) u")
  case None
  with assms(1) show ?thesis by (simp add: processHandoff_def)
next
  case (Some c)
  have init: "isInitialized m"
  proof (rule ccontr)
    assume "\<not> isInitialized m"
    from manager_inv_empty [OF assms(1) this] Some show False by simp
  qed
  from assms(2) [OF init] have reg: "registered m (Some t)" .
  note ok = ctx_ok_handed [OF reg]
  show ?thesis
  proof (cases "map_of (agents m) t")
    case None
    with Some show ?thesis
      by (simp add: processHandoff_def Let_def inv_store [OF assms(1) init] ok)
  next
    case a: (Some a)
    show ?thesis
    proof (cases "handleHandoff w a (or_empty hc)
                    (c\<lparr>handoffRequested := False, handoffTarget := None, handoffReason := None,
                       currentAgent := Some t, handoffContext := Some (or_empty hc)\<rparr>)")
      case (Inl err)
      with Some a show ?thesis
        by (simp add: processHandoff_def Let_def inv_store [OF assms(1) init] ok)
    next
      case (Inr r)
      with Some a show ?thesis
        by (simp add: processHandoff_def Let_def inv_store [OF assms(1) init] ok)
    qed
  qed
qed

lemma classify_registered:
  assumes "''askme'' \<in> set (getAvailableAgents m)"
  shows "fst (classify w m msg ctx p) \<in> set (getAvailableAgents m)"
proof (cases "completion w")
  case (Inl err)
  with assms show ?thesis by (simp add: classify_def)
next
  case (Inr content)
  show ?thesis
  proof (cases "map_of (agents m) (toLowerCase (trim content))")
    case None
    with Inr assms show ?thesis by (simp add: classify_def Let_def)
  next
    case (Some a)
    then have "toLowerCase (trim content) \<in> fst ` set (agents m)"
      by (metis map_of_eq_None_iff option.distinct(1))
    with Inr Some show ?thesis by (simp add: classify_def Let_def getAvailableAgents_def)
  qed
qed

lemma determineAgent_cases:
  "determineAgent w m msg ctx p = classify w m msg ctx p \<or>
   fst (determineAgent w m msg ctx p) = ''askme'' \<or>
   (\<exists>a. map_of (agents m) (the (currentAgent ctx)) = Some a \<and>
      fst (determineAgent w m msg ctx p) = the (currentAgent ctx)) \<or>
   fst (determineAgent w m msg ctx p) = fst (classify w m msg ctx p)"
  by (auto simp add: determineAgent_def split: option.splits sum.splits bool.splits prod.splits)

lemma determineAgent_registered:
  assumes "''askme'' \<in> set (getAvailableAgents m)"
  shows "fst (determineAgent w m msg ctx p) \<in> set (getAvailableAgents m)"
proof -
  have k: "x \<in> set (getAvailableAgents m)" if "map_of (agents m) x = Some a" for x a
  proof -
    from that have "x \<in> fst ` set (agents m)" by (metis map_of_eq_None_iff option.distinct(1))
    then show ?thesis by (simp add: getAvailableAgents_def)
  qed
  from determineAgent_cases [of w m msg ctx p] show ?thesis
    using assms classify_registered [OF assms, of w msg ctx p] k by auto
qed

lemma directive_target:
  assumes "directives_in T w" and "agent_processMessage w a msg c p = Inr r"
    and "r_handoff r = Some h"
  shows "T (targetAgent h)"
proof (cases "cls a \<in> {FoodieAgent, RideNowAgent, AskMeAgent}")
  case True
  with assms(2) have "r_handoff r = None"
    by (auto simp add: agent_processMessage_def handleError_def formatResponse_def
          split: sum.splits prod.splits agent_class.splits)
  with assms(3) show ?thesis by simp
next
  case False
  then have c: "cls a \<in> set [TravelBuddyAgent, ShopSmartAgent, GrocerAgent]"
    by (cases "cls a") simp_all
  from False assms(2) have "absent_processMessage w (cls a) = Inr r"
    by (simp add: agent_processMessage_def)
  with assms(1,3) c show ?thesis
    unfolding directives_in_def list_all_iff by fastforce
qed

lemma ctx_ok_history: "ctx_ok m c \<Longrightarrow> ctx_ok m (c\<lparr>history := hs\<rparr>)"
  by (simp add: ctx_ok_def)

lemma ctx_ok_recorded:
  "ctx_ok m c \<Longrightarrow> registered m (Some t) \<Longrightarrow>
     ctx_ok m (c\<lparr>handoffRequested := True, handoffTarget := Some t, handoffReason := rs\<rparr>)"
  by (simp add: ctx_ok_def)

lemma inv_save_and_return:
  "manager_inv m \<Longrightarrow> isInitialized m \<Longrightarrow> ctx_ok m c \<Longrightarrow>
     manager_inv (snd (save_and_return w m u t c r))"
  by (simp add: save_and_return_def inv_cleanup inv_store)

lemma inv_after_response:
  assumes "manager_inv m" and "isInitialized m" and "ctx_ok m c"
    and "\<And>h. r_handoff r = Some h \<Longrightarrow> registered m (Some (targetAgent h))"
  shows "manager_inv (snd (after_response w m b u t c r))"
proof (cases "r_handoff r")
  case None
  then show ?thesis
    by (simp add: after_response_def inv_save_and_return [OF assms(1,2) ctx_ok_history [OF assms(3)]])
next
  case (Some h)
  from assms(4) [OF Some] have reg: "registered m (Some (targetAgent h))" .
  let ?c4 = "c\<lparr>history := history c @
                 [AgentEntry t (r_message r) (now w AgentTimestamp) (or_empty (r_metadata r))],
               handoffRequested := True, handoffTarget := Some (targetAgent h),
               handoffReason := Some (reason h)\<rparr>"
  have ok: "ctx_ok m ?c4"
    by (rule ctx_ok_recorded [OF ctx_ok_history [OF assms(3)] reg])
  show ?thesis
  proof (cases "autoHandoff h")
    case True
    have i: "manager_inv (through b u ?c4 m)"
      by (rule inv_through [OF assms(1,2) ok])
    have "registered (through b u ?c4 m) (Some (targetAgent h))"
      using reg by (simp add: registered_Some getAvailableAgents_def)
    from inv_processHandoff [OF i this]
    have "manager_inv (snd (processHandoff w (through b u ?c4 m) u (targetAgent h) (h_context h)))" .
    with Some True show ?thesis by (simp add: after_response_def Let_def)
  next
    case False
    with Some show ?thesis
      by (simp add: after_response_def Let_def inv_save_and_return [OF assms(1,2) ok])
  qed
qed

lemma ctx_ok_load:
  assumes "manager_inv m"
  shows "ctx_ok m (load w m u)"
proof (cases "map_of (conversationContext m) u")
  case None
  then show ?thesis by (simp add: load_def fresh_context_def ctx_ok_def)
next
  case (Some c)
  with manager_inv_ctx [OF assms Some] show ?thesis by (simp add: load_def)
qed

lemma ctx_ok_inbound: "ctx_ok m c \<Longrightarrow> ctx_ok m (inbound w msg c)"
  by (simp add: ctx_ok_def inbound_def)

lemma ctx_ok_switch:
  "ctx_ok m c \<Longrightarrow> registered m (Some t) \<Longrightarrow>
     ctx_ok m (if currentAgent c \<noteq> Some t then c\<lparr>currentAgent := Some t\<rparr> else c)"
  by (simp add: ctx_ok_def)

lemma inv_processMessage_try:
  assumes "manager_inv m" and "isInitialized m" and "directives_in (\<lambda>t. t \<in> set agent_ids) w"
  shows "manager_inv (fst (snd (processMessage_try w m u msg p)))"
proof -
  let ?c1 = "inbound w msg (load w m u)"
  obtain agentType calls where d: "determineAgent w m msg ?c1 p = (agentType, calls)"
    by (cases "determineAgent w m msg ?c1 p") auto
  from manager_inv_ids [OF assms(1,2)] have ids: "set agent_ids \<subseteq> set (getAvailableAgents m)" .
  then have "''askme'' \<in> set (getAvailableAgents m)" by (auto simp add: agent_ids_def)
  from determineAgent_registered [OF this, of w msg ?c1 p] d
  have reg: "registered m (Some agentType)" by (simp add: registered_Some)
  let ?c2 = "if currentAgent ?c1 \<noteq> Some agentType then ?c1\<lparr>currentAgent := Some agentType\<rparr> else ?c1"
  have ok2: "ctx_ok m ?c2"
    by (rule ctx_ok_switch [OF ctx_ok_inbound [OF ctx_ok_load [OF assms(1)]] reg])
  have tgt: "registered m (Some (targetAgent h))"
    if "agent_processMessage w a msg ?c2 p = Inr r" and "r_handoff r = Some h" for a r h
    using directive_target [OF assms(3) that] ids by (auto simp add: registered_Some)
  have thr: "manager_inv (through b u ?c2 m)" for b
    by (rule inv_through [OF assms(1,2) ok2])
  show ?thesis
  proof (cases "map_of (agents m) agentType")
    case None
    have "fst (snd (processMessage_try w m u msg p)) =
            through (map_of (conversationContext m) u \<noteq> None) u ?c2 m"
      unfolding processMessage_try_def Let_def d using None by simp
    with thr show ?thesis by simp
  next
    case (Some a)
    show ?thesis
    proof (cases "agent_processMessage w a msg ?c2 p")
      case (Inl err)
      have "fst (snd (processMessage_try w m u msg p)) =
              through (map_of (conversationContext m) u \<noteq> None) u ?c2 m"
        unfolding processMessage_try_def Let_def d using Some Inl by simp
      with thr show ?thesis by simp
    next
      case (Inr r)
      have e: "fst (snd (processMessage_try w m u msg p)) =
              snd (after_response w m (map_of (conversationContext m) u \<noteq> None) u agentType ?c2 r)"
        unfolding processMessage_try_def Let_def d using Some Inr
        by (simp split: prod.splits)
      have "manager_inv (snd (after_response w m b u agentType ?c2 r))" for b
        by (rule inv_after_response [OF assms(1,2) ok2]) (rule tgt [OF Inr])
      with e show ?thesis by simp
    qed
  qed
qed

lemma reachable_by_inv:
  "reachable_by (\<lambda>t. t \<in> set agent_ids) m \<Longrightarrow> manager_inv m"
proof (induction rule: reachable_by.induct)
  case start
  then show ?case by (simp add: manager_inv_def constructor_def)
next
  case (init m w)
  then show ?case by (simp add: inv_initialize)
next
  case (turn m w userId msg userProfile)
  have "manager_inv (fst (snd (processMessage_try w (ready w m) userId msg userProfile)))"
    by (rule inv_processMessage_try [OF inv_ready [OF turn.IH] _ turn.hyps(2)]) simp
  then show ?case by (simp only: processMessage_manager)
next
  case (handoff m target w userId hc)
  show ?case
  proof (rule inv_processHandoff [OF handoff.IH])
    assume "isInitialized m"
    from manager_inv_ids [OF handoff.IH this] handoff.hyps(2)
    show "registered m (Some target)" by (auto simp add: registered_Some)
  qed
next
  case (clear m userId)
  then show ?case by (simp add: inv_clear)
next
  case (sweep m w)
  then show ?case by (simp add: inv_cleanup)
qed

text \<open>
  C6, as the code has it. In every manager reached through \<open>initialize\<close>,
  \<open>processMessage\<close>, \<open>processHandoff\<close>, \<open>clearUserContext\<close> and the sweep, in worlds
  whose handoff directives name registered agents and with calls of \<open>processHandoff\<close>
  that name registered agents, every stored context has a \<open>currentAgent\<close> that is empty
  or registered and a \<open>handoffTarget\<close> that is empty or registered.
\<close>

theorem context_invariant_amended:
  assumes "reachable_by (\<lambda>target. target \<in> set agent_ids) m"
    and "getUserContext m userId = Some ctx"
  shows "(currentAgent ctx = None \<or> registered m (currentAgent ctx)) \<and>
         (handoffTarget ctx = None \<or> registered m (handoffTarget ctx))"
proof -
  from assms(2) have "map_of (conversationContext m) userId = Some ctx"
    by (simp add: getUserContext_def)
  from manager_inv_ctx [OF reachable_by_inv [OF assms(1)] this]
  show ?thesis by (simp only: ctx_ok_def)
qed

theorem context_invariant_amended_witness:
  "reachable_by (\<lambda>target. target \<in> set agent_ids) deferred_manager \<and>
   getUserContext deferred_manager ''u1'' = Some (the (getUserContext deferred_manager ''u1'')) \<and>
   currentAgent (the (getUserContext deferred_manager ''u1'')) = Some ''travelbuddy'' \<and>
   handoffTarget (the (getUserContext deferred_manager ''u1'')) = Some ''askme'' \<and>
   registered deferred_manager (Some ''travelbuddy'') \<and>
   registered deferred_manager (Some ''askme'')"
proof -
  let ?c = "the (getUserContext deferred_manager ''u1'')"
  have d: "directives_in (\<lambda>target. target \<in> set agent_ids)
             (handoff_world ''travelbuddy'' ''askme'' False)"
    by code_simp
  have r: "reachable_by (\<lambda>target. target \<in> set agent_ids) deferred_manager"
    unfolding deferred_manager_def
    by (rule reachable_by.turn [OF reachable_by.start d])
  have g: "getUserContext deferred_manager ''u1'' = Some ?c" by code_simp
  have a: "currentAgent ?c = Some ''travelbuddy''" by code_simp
  have b: "handoffTarget ?c = Some ''askme''" by code_simp
  from context_invariant_amended [OF r g] a b
  have "registered deferred_manager (Some ''travelbuddy'') \<and>
        registered deferred_manager (Some ''askme'')"
    by simp
  with r g a b show ?thesis by blast
qed

lemma directives_in_any: "directives_in (\<lambda>target. True) w"
  by (simp add: directives_in_def split: sum.splits option.splits)

text \<open>
  C6 as stated fails. An automatic handoff to \<open>nowhere\<close>, which is no agent, leaves
  \<open>currentAgent = nowhere\<close> in the stored context; a directive of the travel agent that
  names the travel agent itself is recorded with \<open>handoffTarget\<close> equal to
  \<open>currentAgent\<close>.
\<close>

theorem context_invariant_counterexample:
  "reachable cex_manager \<and>
   map_option currentAgent (getUserContext cex_manager ''u1'') = Some (Some ''nowhere'') \<and>
   \<not> registered cex_manager (Some ''nowhere'') \<and>
   reachable self_manager \<and>
   map_option currentAgent (getUserContext self_manager ''u1'') = Some (Some ''travelbuddy'') \<and>
   map_option handoffTarget (getUserContext self_manager ''u1'') = Some (Some ''travelbuddy'')"
proof -
  have "reachable deferred_manager"
    unfolding reachable_def deferred_manager_def
    by (rule reachable_by.turn [OF reachable_by.start directives_in_any])
  then have 1: "reachable cex_manager"
    unfolding reachable_def cex_manager_def
    by (rule reachable_by.turn [OF _ directives_in_any])
  have 2: "reachable self_manager"
    unfolding reachable_def self_manager_def
    by (rule reachable_by.turn [OF reachable_by.start directives_in_any])
  have 3: "map_option currentAgent (getUserContext cex_manager ''u1'') = Some (Some ''nowhere'')"
    by code_simp
  have 4: "\<not> registered cex_manager (Some ''nowhere'')" by code_simp
  have 5: "map_option currentAgent (getUserContext self_manager ''u1'') = Some (Some ''travelbuddy'')"
    by code_simp
  have 6: "map_option handoffTarget (getUserContext self_manager ''u1'') = Some (Some ''travelbuddy'')"
    by code_simp
  from 1 2 3 4 5 6 show ?thesis by blast
qed

subsection \<open>The keys of the store\<close>

lemma keys_store:
  "distinct (map fst (conversationContext m)) \<Longrightarrow>
     distinct (map fst (conversationContext (store u c m)))"
  by (simp add: distinct_update)

lemma keys_through:
  "distinct (map fst (conversationContext m)) \<Longrightarrow>
     distinct (map fst (conversationContext (through b u c m)))"
  by (simp add: through_def distinct_update)

lemma keys_cleanup:
  assumes "distinct (map fst (conversationContext m))"
  shows "distinct (map fst (conversationContext (cleanupOldContexts w m)))"
proof -
  have "conversationContext (cleanupOldContexts w m) =
          filter (\<lambda>(u, c). \<not> (\<exists>c'. (u, c') \<in> set (conversationContext m) \<and>
                                 lastActivity c' < cutoffTime w)) (conversationContext m)"
    unfolding cleanupOldContexts_def by (simp add: fold_delete_old)
  with assms show ?thesis by (simp add: distinct_map_filter)
qed

lemma keys_processHandoff:
  assumes "distinct (map fst (conversationContext m))"
  shows "distinct (map fst (conversationContext (snd (processHandoff w m u t hc))))"
proof (cases "map_of (conversationContext m) u")
  case None
  with assms show ?thesis by (simp add: processHandoff_def)
next
  case (Some c)
  with assms show ?thesis
    by (simp add: processHandoff_def Let_def distinct_update split: option.splits sum.splits)
qed

lemma keys_after_response:
  assumes "distinct (map fst (conversationContext m))"
  shows "distinct (map fst (conversationContext (snd (after_response w m b u t c r))))"
proof (cases "r_handoff r")
  case None
  then show ?thesis
    by (simp add: after_response_def save_and_return_def keys_cleanup [OF keys_store [OF assms]])
next
  case (Some h)
  show ?thesis
  proof (cases "autoHandoff h")
    case True
    with Some show ?thesis
      by (simp add: after_response_def Let_def keys_processHandoff [OF keys_through [OF assms]])
  next
    case False
    with Some show ?thesis
      by (simp add: after_response_def Let_def save_and_return_def
            keys_cleanup [OF keys_store [OF assms]])
  qed
qed

lemma keys_processMessage_try:
  assumes "distinct (map fst (conversationContext m))"
  shows "distinct (map fst (conversationContext (fst (snd (processMessage_try w m u msg p)))))"
proof -
  let ?c1 = "inbound w msg (load w m u)"
  obtain agentType calls where d: "determineAgent w m msg ?c1 p = (agentType, calls)"
    by (cases "determineAgent w m msg ?c1 p") auto
  let ?c2 = "if currentAgent ?c1 \<noteq> Some agentType then ?c1\<lparr>currentAgent := Some agentType\<rparr> else ?c1"
  show ?thesis
  proof (cases "map_of (agents m) agentType")
    case None
    have "fst (snd (processMessage_try w m u msg p)) =
            through (map_of (conversationContext m) u \<noteq> None) u ?c2 m"
      unfolding processMessage_try_def Let_def d using None by simp
    with keys_through [OF assms] show ?thesis by simp
  next
    case (Some a)
    show ?thesis
    proof (cases "agent_processMessage w a msg ?c2 p")
      case (Inl err)
      have "fst (snd (processMessage_try w m u msg p)) =
              through (map_of (conversationContext m) u \<noteq> None) u ?c2 m"
        unfolding processMessage_try_def Let_def d using Some Inl by simp
      with keys_through [OF assms] show ?thesis by simp
    next
      case (Inr r)
      have "fst (snd (processMessage_try w m u msg p)) =
              snd (after_response w m (map_of (conversationContext m) u \<noteq> None) u agentType ?c2 r)"
        unfolding processMessage_try_def Let_def d using Some Inr
        by (simp split: prod.splits)
      with keys_after_response [OF assms] show ?thesis by simp
    qed
  qed
qed

text \<open>The keys of the store of a manager that the operations have produced are
  distinct.\<close>

lemma reachable_by_distinct:
  "reachable_by T m \<Longrightarrow> distinct (map fst (conversationContext m))"
proof (induction rule: reachable_by.induct)
  case start
  then show ?case by (simp add: constructor_def)
next
  case (init m w)
  then show ?case by simp
next
  case (turn m w userId msg userProfile)
  from turn.IH have "distinct (map fst (conversationContext (ready w m)))" by simp
  from keys_processMessage_try [OF this] show ?case by (simp only: processMessage_manager)
next
  case (handoff m target w userId hc)
  then show ?case by (simp add: keys_processHandoff)
next
  case (clear m userId)
  then show ?case by (simp add: clearUserContext_def distinct_delete)
next
  case (sweep m w)
  then show ?case by (simp add: keys_cleanup)
qed

subsection \<open>The roster\<close>

lemma reachable_by_roster:
  "reachable_by T m \<Longrightarrow> set (getAvailableAgents m) \<subseteq> set agent_ids"
proof (induction rule: reachable_by.induct)
  case start
  then show ?case by (simp add: constructor_def getAvailableAgents_def)
next
  case (init m w)
  then show ?case by (simp add: keys_initialize)
next
  case (turn m w userId msg userProfile)
  have "set (getAvailableAgents (ready w m)) \<subseteq> set agent_ids"
    using turn.IH by (simp add: ready_def keys_initialize)
  then show ?case by (simp add: getAvailableAgents_def)
next
  case (handoff m target w userId hc)
  then show ?case by (simp add: getAvailableAgents_def)
next
  case (clear m userId)
  then show ?case by (simp add: getAvailableAgents_def clearUserContext_def)
next
  case (sweep m w)
  then show ?case by (simp add: getAvailableAgents_def)
qed

text \<open>A registered name of a manager that the operations have produced is one of the
  six names, and so not empty: the second hypothesis of \<open>sticky_routing\<close> holds for
  every registered agent of such a manager.\<close>

lemma registered_nonempty:
  assumes "reachable_by T m" and "map_of (agents m) A = Some a"
  shows "A \<in> set agent_ids \<and> A \<noteq> []"
proof -
  from assms(2) have "A \<in> fst ` set (agents m)"
    by (metis map_of_eq_None_iff option.distinct(1))
  then have "A \<in> set (getAvailableAgents m)" by (simp add: getAvailableAgents_def)
  with reachable_by_roster [OF assms(1)] have "A \<in> set agent_ids" by blast
  then show ?thesis by (auto simp add: agent_ids_def)
qed

subsection \<open>The context after a failure\<close>

lemma processHandoff_well_formed:
  "fst (processHandoff w m u t hc) = Inr env \<Longrightarrow> well_formed env"
  by (auto simp add: processHandoff_def Let_def split: option.splits sum.splits)

lemma after_response_well_formed:
  "fst (after_response w m b u t c r) = Inr env \<Longrightarrow> well_formed env"
  by (auto simp add: after_response_def save_and_return_def Let_def
        dest: processHandoff_well_formed split: option.splits if_splits)

lemma processMessage_try_well_formed:
  "fst (processMessage_try w m u msg p) = Inr env \<Longrightarrow> well_formed env"
  by (auto simp add: processMessage_try_def Let_def split: prod.splits option.splits sum.splits)
    (metis after_response_well_formed fst_conv)

lemma failed_processMessage:
  "failed (fst (processMessage w m u msg p)) \<Longrightarrow>
     \<exists>err. fst (processMessage_try w (ready w m) u msg p) = Inl err"
proof -
  assume f: "failed (fst (processMessage w m u msg p))"
  obtain res m' calls where t: "processMessage_try w (ready w m) u msg p = (res, m', calls)"
    by (cases "processMessage_try w (ready w m) u msg p") auto
  show ?thesis
  proof (cases res)
    case (Inl err)
    with t show ?thesis by simp
  next
    case (Inr env)
    with t have "well_formed env"
      using processMessage_try_well_formed [of w "ready w m" u msg p env] by simp
    then obtain a reply acts sugg h md where "env = Envelope a reply acts sugg h md"
      by (cases env) auto
    with f t Inr show ?thesis by (simp add: processMessage_def)
  qed
qed

lemma not_failed_processMessage:
  assumes "fst (processMessage_try w (ready w m) u msg p) = Inr env"
  shows "\<not> failed (fst (processMessage w m u msg p))"
proof -
  from processMessage_try_well_formed [OF assms]
  obtain a reply acts sugg h md where e: "env = Envelope a reply acts sugg h md"
    by (cases env) auto
  obtain m' calls where "processMessage_try w (ready w m) u msg p = (Inr env, m', calls)"
    using assms by (cases "processMessage_try w (ready w m) u msg p") auto
  then show ?thesis by (simp add: processMessage_def e)
qed

lemma load_ready: "load w (ready w m) u = load w m u"
  by (simp add: load_def)

lemma turn_context_ready:
  "turn_context w m u msg p =
     (if currentAgent (inbound w msg (load w (ready w m) u)) \<noteq>
           Some (fst (determineAgent w (ready w m) msg (inbound w msg (load w (ready w m) u)) p))
      then (inbound w msg (load w (ready w m) u))
             \<lparr>currentAgent :=
                Some (fst (determineAgent w (ready w m) msg (inbound w msg (load w (ready w m) u)) p))\<rparr>
      else inbound w msg (load w (ready w m) u))"
  by (simp add: turn_context_def chosen_def load_ready Let_def)

lemma turn_context_fields:
  "lastActivity (turn_context w m u msg p) = now w Activity"
  "history (turn_context w m u msg p) = history (load w m u) @ [UserEntry msg (now w UserTimestamp)]"
  by (simp_all add: turn_context_def inbound_def Let_def)

lemma cleanup_lookup:
  assumes "distinct (map fst (conversationContext m))"
  shows "map_of (conversationContext (cleanupOldContexts w m)) u =
           (case map_of (conversationContext m) u of
              None \<Rightarrow> None
            | Some c \<Rightarrow> if lastActivity c < cutoffTime w then None else Some c)"
proof -
  have "conversationContext (cleanupOldContexts w m) =
          filter (\<lambda>(u, c). \<not> lastActivity c < cutoffTime w) (conversationContext m)"
    unfolding cleanupOldContexts_def
    using sweep_filter [OF assms, of "\<lambda>c. lastActivity c < cutoffTime w"] by simp
  then show ?thesis
    by (simp add: map_of_filter_distinct [OF assms] split: option.splits)
qed

lemma save_and_return_stored:
  assumes "distinct (map fst (conversationContext m))" and "\<not> lastActivity c < cutoffTime w"
  shows "map_of (conversationContext (snd (save_and_return w m u t c r))) u = Some c"
proof -
  have d: "distinct (map fst (conversationContext (store u c m)))"
    using assms(1) by (simp add: distinct_update)
  have "map_of (conversationContext (store u c m)) u = Some c"
    by (simp add: update_conv')
  with cleanup_lookup [OF d, of w u] assms(2) show ?thesis
    by (simp add: save_and_return_def)
qed

lemma insrc_response:
  assumes "cls a \<in> {FoodieAgent, RideNowAgent, AskMeAgent}"
  shows "\<exists>r. agent_processMessage w a msg c p = Inr r \<and> r_handoff r = None"
  using assms
  by (auto simp add: agent_processMessage_def handleError_def formatResponse_def
        split: sum.splits prod.splits agent_class.splits)

lemma agent_processMessage_ctx:
  "agent_processMessage w a msg c p = agent_processMessage w a msg c' p"
  by (simp add: agent_processMessage_def handleError_def)

text \<open>A turn whose agent returns a response without handoff directive ends on the
  normal path, and the context is stored with the reply appended.\<close>

lemma normal_turn:
  assumes "distinct (map fst (conversationContext (ready w m)))"
    and "map_of (agents (ready w m)) (chosen w m u msg p) = Some a"
    and "agent_processMessage w a msg (turn_context w m u msg p) p = Inr r"
    and "r_handoff r = None"
    and "\<not> now w Activity < cutoffTime w"
  shows "(\<exists>env. fst (processMessage_try w (ready w m) u msg p) = Inr env) \<and>
         map_of (conversationContext (fst (snd (processMessage_try w (ready w m) u msg p)))) u =
           Some ((turn_context w m u msg p)
                   \<lparr>history := history (turn_context w m u msg p) @
                                 [recorded w (chosen w m u msg p) r]\<rparr>)"
proof -
  let ?m = "ready w m"
  let ?c1 = "inbound w msg (load w ?m u)"
  let ?t = "chosen w m u msg p"
  let ?c2 = "turn_context w m u msg p"
  let ?c3 = "?c2\<lparr>history := history ?c2 @ [recorded w ?t r]\<rparr>"
  obtain calls where d: "determineAgent w ?m msg ?c1 p = (?t, calls)"
    by (cases "determineAgent w ?m msg ?c1 p") (simp add: chosen_def load_ready)
  have c2: "(if currentAgent ?c1 \<noteq> Some ?t then ?c1\<lparr>currentAgent := Some ?t\<rparr> else ?c1) = ?c2"
    by (simp add: turn_context_def Let_def load_ready)
  have ar: "after_response w ?m b u ?t ?c2 r = save_and_return w ?m u ?t ?c3 r" for b
    using assms(4) by (simp add: after_response_def recorded_def)
  have t: "processMessage_try w ?m u msg p =
             (fst (save_and_return w ?m u ?t ?c3 r), snd (save_and_return w ?m u ?t ?c3 r), calls)"
    unfolding processMessage_try_def Let_def d
    using assms(2,3) by (simp add: c2 ar split: prod.splits)
  have "\<not> lastActivity ?c3 < cutoffTime w"
    using assms(5) by (simp add: turn_context_fields)
  from save_and_return_stored [OF assms(1) this, of u ?t r] t
  show ?thesis by (simp add: save_and_return_def)
qed

lemma processHandoff_failure_keeps:
  assumes "map_of (conversationContext m) u = Some c"
    and "fst (processHandoff w m u t hc) = Inl err"
  shows "\<exists>c'. map_of (conversationContext (snd (processHandoff w m u t hc))) u = Some c' \<and>
              history c' = history c \<and> lastActivity c' = lastActivity c"
  using assms
  by (auto simp add: processHandoff_def Let_def update_conv' split: option.splits sum.splits)

lemma after_response_failure_keeps:
  assumes "fst (after_response w m True u t c r) = Inl err"
  shows "\<exists>c' h. map_of (conversationContext (snd (after_response w m True u t c r))) u = Some c' \<and>
              lastActivity c' = lastActivity c \<and>
              history c' = history c @ [recorded w t r] \<and>
              r_handoff r = Some h \<and> autoHandoff h"
proof (cases "r_handoff r")
  case None
  with assms show ?thesis by (simp add: after_response_def save_and_return_def)
next
  case (Some h)
  let ?c4 = "c\<lparr>history := history c @
                 [AgentEntry t (r_message r) (now w AgentTimestamp) (or_empty (r_metadata r))],
               handoffRequested := True, handoffTarget := Some (targetAgent h),
               handoffReason := Some (reason h)\<rparr>"
  let ?m = "through True u ?c4 m"
  from assms Some have auto: "autoHandoff h"
    by (auto simp add: after_response_def save_and_return_def Let_def split: if_splits)
  with Some have eq: "after_response w m True u t c r =
                        processHandoff w ?m u (targetAgent h) (h_context h)"
    by (simp add: after_response_def Let_def)
  have st: "map_of (conversationContext ?m) u = Some ?c4"
    by (simp add: through_def store_def update_conv')
  from assms eq have fl: "fst (processHandoff w ?m u (targetAgent h) (h_context h)) = Inl err"
    by simp
  from processHandoff_failure_keeps [OF st fl]
  obtain c' where "map_of (conversationContext (snd (processHandoff w ?m u (targetAgent h) (h_context h)))) u = Some c'"
    and "history c' = history ?c4" and "lastActivity c' = lastActivity ?c4"
    by blast
  with Some auto show ?thesis unfolding eq by (simp add: recorded_def)
qed

text \<open>The context of a user with a context, after a turn whose \<open>try\<close> block failed.\<close>

lemma failed_turn_existing:
  assumes "map_of (conversationContext m) u = Some c"
    and "fst (processMessage_try w (ready w m) u msg p) = Inl err"
  shows "\<exists>c'. map_of (conversationContext (fst (snd (processMessage_try w (ready w m) u msg p)))) u = Some c' \<and>
           lastActivity c' = now w Activity \<and>
           (history c' = history c @ [UserEntry msg (now w UserTimestamp)] \<or>
            (\<exists>a r h. map_of (agents (ready w m)) (chosen w m u msg p) = Some a \<and>
               agent_processMessage w a msg (turn_context w m u msg p) p = Inr r \<and>
               r_handoff r = Some h \<and> autoHandoff h \<and>
               history c' = history c @
                 [UserEntry msg (now w UserTimestamp), recorded w (chosen w m u msg p) r]))"
proof -
  let ?m = "ready w m"
  let ?c1 = "inbound w msg (load w ?m u)"
  let ?t = "chosen w m u msg p"
  let ?c2 = "turn_context w m u msg p"
  from assms(1) have found: "map_of (conversationContext ?m) u = Some c" by simp
  then have ld: "load w m u = c" by (simp add: load_def)
  obtain calls where d: "determineAgent w ?m msg ?c1 p = (?t, calls)"
    by (cases "determineAgent w ?m msg ?c1 p") (simp add: chosen_def load_ready)
  have c2: "(if currentAgent ?c1 \<noteq> Some ?t then ?c1\<lparr>currentAgent := Some ?t\<rparr> else ?c1) = ?c2"
    by (simp add: turn_context_def Let_def load_ready)
  have f2: "lastActivity ?c2 = now w Activity"
           "history ?c2 = history c @ [UserEntry msg (now w UserTimestamp)]"
    using turn_context_fields [of w m u msg p] by (simp_all add: ld)
  have thr: "map_of (conversationContext (through True u ?c2 ?m)) u = Some ?c2"
    by (simp add: through_def update_conv')
  show ?thesis
  proof (cases "map_of (agents ?m) ?t")
    case None
    have "fst (snd (processMessage_try w ?m u msg p)) = through True u ?c2 ?m"
      unfolding processMessage_try_def Let_def d using None found by (simp add: c2)
    with thr f2 show ?thesis by simp
  next
    case (Some a)
    show ?thesis
    proof (cases "agent_processMessage w a msg ?c2 p")
      case (Inl x)
      have "fst (snd (processMessage_try w ?m u msg p)) = through True u ?c2 ?m"
        unfolding processMessage_try_def Let_def d using Some Inl found by (simp add: c2)
      with thr f2 show ?thesis by simp
    next
      case (Inr r)
      have t: "processMessage_try w ?m u msg p =
                 (fst (after_response w ?m True u ?t ?c2 r),
                  snd (after_response w ?m True u ?t ?c2 r), calls)"
        unfolding processMessage_try_def Let_def d using Some Inr found
        by (simp add: c2 split: prod.splits)
      with assms(2) have "fst (after_response w ?m True u ?t ?c2 r) = Inl err" by simp
      from after_response_failure_keeps [OF this]
      obtain c' h where "map_of (conversationContext (snd (after_response w ?m True u ?t ?c2 r))) u = Some c'"
        and "lastActivity c' = lastActivity ?c2"
        and "history c' = history ?c2 @ [recorded w ?t r]"
        and "r_handoff r = Some h" and "autoHandoff h"
        by blast
      with t f2 Some Inr show ?thesis by auto
    qed
  qed
qed

lemma processMessage_try_calls:
  "snd (snd (processMessage_try w m u msg p)) =
     snd (determineAgent w m msg (inbound w msg (load w m u)) p)"
  by (simp add: processMessage_try_def Let_def split: prod.splits option.splits sum.splits)

lemma classification_failure_chosen:
  assumes "list_ex is_classification (snd (snd (processMessage w m u msg p)))"
    and "case completion w of
           Inl err \<Rightarrow> True
         | Inr content \<Rightarrow> toLowerCase (trim content) \<notin> set (getAvailableAgents (ready w m))"
  shows "chosen w m u msg p = ''askme''"
proof -
  let ?m = "ready w m"
  let ?c1 = "inbound w msg (load w ?m u)"
  from assms(1) have "list_ex is_classification (snd (determineAgent w ?m msg ?c1 p))"
    by (simp add: processMessage_calls processMessage_try_calls)
  then have "fst (determineAgent w ?m msg ?c1 p) = ''askme''"
    using determineAgent_classified classify_fallback [OF assms(2)] by simp
  then show ?thesis by (simp add: chosen_def load_ready)
qed

text \<open>The stored context after a turn that an agent of a class at hand answers.\<close>

lemma insrc_turn:
  assumes "reachable m"
    and "map_of (agents (ready w m)) (chosen w m u msg p) = Some a"
    and "cls a \<in> {FoodieAgent, RideNowAgent, AskMeAgent}"
    and "now w Sweep - 24 * 60 * 60 * 1000 \<le> now w Activity"
  shows "\<exists>r ctx'. agent_processMessage w a msg (turn_context w m u msg p) p = Inr r \<and>
           \<not> failed (fst (processMessage w m u msg p)) \<and>
           getUserContext (fst (snd (processMessage w m u msg p))) u = Some ctx' \<and>
           lastActivity ctx' = now w Activity \<and>
           history ctx' = history (load w m u) @
             [UserEntry msg (now w UserTimestamp), recorded w (chosen w m u msg p) r]"
proof -
  from assms(1) have "distinct (map fst (conversationContext m))"
    unfolding reachable_def by (rule reachable_by_distinct)
  then have d: "distinct (map fst (conversationContext (ready w m)))" by simp
  from insrc_response [OF assms(3)]
  obtain r where r: "agent_processMessage w a msg (turn_context w m u msg p) p = Inr r"
    and h: "r_handoff r = None"
    by blast
  from assms(4) have c: "\<not> now w Activity < cutoffTime w" by (simp add: cutoffTime_def)
  from normal_turn [OF d assms(2) r h c]
  obtain env where e: "fst (processMessage_try w (ready w m) u msg p) = Inr env"
    and s: "map_of (conversationContext (fst (snd (processMessage_try w (ready w m) u msg p)))) u =
           Some ((turn_context w m u msg p)
                   \<lparr>history := history (turn_context w m u msg p) @
                                 [recorded w (chosen w m u msg p) r]\<rparr>)"
    by blast
  from s have "getUserContext (fst (snd (processMessage w m u msg p))) u =
           Some ((turn_context w m u msg p)
                   \<lparr>history := history (turn_context w m u msg p) @
                                 [recorded w (chosen w m u msg p) r]\<rparr>)"
    by (simp add: getUserContext_def processMessage_manager)
  with r not_failed_processMessage [OF e] show ?thesis
    by (simp add: turn_context_fields)
qed

text \<open>
  C5, as the code has it, on a manager that the operations of the module have produced.
  \<^item> A failure of classification (the completion service throws or names no registered
    agent) does not fail the turn: \<open>askme\<close> answers, and the store afterwards holds a
    context for the user, a first-turn user too, with \<open>lastActivity\<close> updated and a
    history made of the earlier history, the inbound message and the reply of \<open>askme\<close>.
  \<^item> A failure that an agent of a class at hand catches itself does not fail the turn
    either: the store afterwards holds a context for the user, a first-turn user too,
    whose history is the earlier history, the inbound message and the degraded reply of
    \<open>handleError\<close>, the error content of the turn.
  \<^item> When the turn fails (the \<open>catch\<close> block of \<open>processMessage\<close> answers) for a user
    whose context is in the store, the store still holds a context for that user, with
    \<open>lastActivity\<close> updated; its history is the earlier history followed by the inbound
    message alone, or by the inbound message and the reply that the chosen agent returned
    with its directive for an automatic handoff. Nothing about the error is appended.

  In the first two cases the sweep at the end of the turn must read the clock less than
  24 hours after \<open>lastActivity\<close> was assigned: the sweep would evict the context
  otherwise.
\<close>

theorem failure_keeps_inbound_amended:
  assumes "reachable m"
  shows
   "(list_ex is_classification (snd (snd (processMessage w m userId msg p))) \<and>
     (case completion w of
        Inl e \<Rightarrow> True
      | Inr content \<Rightarrow> toLowerCase (trim content) \<notin> set (getAvailableAgents (ready w m))) \<and>
     now w Sweep - 24 * 60 * 60 * 1000 \<le> now w Activity \<longrightarrow>
       (\<exists>b r ctx'.
          map_of (agents (ready w m)) ''askme'' = Some b \<and>
          agent_processMessage w b msg (turn_context w m userId msg p) p = Inr r \<and>
          \<not> failed (fst (processMessage w m userId msg p)) \<and>
          getUserContext (fst (snd (processMessage w m userId msg p))) userId = Some ctx' \<and>
          lastActivity ctx' = now w Activity \<and>
          history ctx' = history (load w m userId) @
            [UserEntry msg (now w UserTimestamp), recorded w ''askme'' r])) \<and>
    (map_of (agents (ready w m)) (chosen w m userId msg p) = Some a \<and>
     cls a \<in> {FoodieAgent, RideNowAgent, AskMeAgent} \<and> body w (cls a) = Inl err \<and>
     now w Sweep - 24 * 60 * 60 * 1000 \<le> now w Activity \<longrightarrow>
       (\<exists>ctx'.
          \<not> failed (fst (processMessage w m userId msg p)) \<and>
          getUserContext (fst (snd (processMessage w m userId msg p))) userId = Some ctx' \<and>
          lastActivity ctx' = now w Activity \<and>
          history ctx' = history (load w m userId) @
            [UserEntry msg (now w UserTimestamp),
             recorded w (chosen w m userId msg p) (handleError w a msg err)])) \<and>
    (getUserContext m userId = Some ctx \<and> failed (fst (processMessage w m userId msg p)) \<longrightarrow>
       (\<exists>ctx'.
          getUserContext (fst (snd (processMessage w m userId msg p))) userId = Some ctx' \<and>
          lastActivity ctx' = now w Activity \<and>
          (history ctx' = history ctx @ [UserEntry msg (now w UserTimestamp)] \<or>
           (\<exists>b r h.
              map_of (agents (ready w m)) (chosen w m userId msg p) = Some b \<and>
              agent_processMessage w b msg (turn_context w m userId msg p) p = Inr r \<and>
              r_handoff r = Some h \<and> autoHandoff h \<and>
              history ctx' = history ctx @
                [UserEntry msg (now w UserTimestamp), recorded w (chosen w m userId msg p) r]))))"
proof (intro conjI impI)
  assume h: "list_ex is_classification (snd (snd (processMessage w m userId msg p))) \<and>
     (case completion w of
        Inl e \<Rightarrow> True
      | Inr content \<Rightarrow> toLowerCase (trim content) \<notin> set (getAvailableAgents (ready w m))) \<and>
     now w Sweep - 24 * 60 * 60 * 1000 \<le> now w Activity"
  then have ch: "chosen w m userId msg p = ''askme''"
    using classification_failure_chosen [of w m userId msg p] by blast
  obtain b where b: "map_of (agents (ready w m)) ''askme'' = Some b" "cls b = AskMeAgent"
    using ready_askme assms unfolding reachable_def by blast
  from b(2) have cl: "cls b \<in> {FoodieAgent, RideNowAgent, AskMeAgent}" by simp
  from h have t: "now w Sweep - 24 * 60 * 60 * 1000 \<le> now w Activity" by blast
  from insrc_turn [OF assms _ cl t, of userId msg p] b(1) ch
  show "\<exists>b r ctx'.
          map_of (agents (ready w m)) ''askme'' = Some b \<and>
          agent_processMessage w b msg (turn_context w m userId msg p) p = Inr r \<and>
          \<not> failed (fst (processMessage w m userId msg p)) \<and>
          getUserContext (fst (snd (processMessage w m userId msg p))) userId = Some ctx' \<and>
          lastActivity ctx' = now w Activity \<and>
          history ctx' = history (load w m userId) @
            [UserEntry msg (now w UserTimestamp), recorded w ''askme'' r]"
    by auto
next
  assume h: "map_of (agents (ready w m)) (chosen w m userId msg p) = Some a \<and>
     cls a \<in> {FoodieAgent, RideNowAgent, AskMeAgent} \<and> body w (cls a) = Inl err \<and>
     now w Sweep - 24 * 60 * 60 * 1000 \<le> now w Activity"
  then have 1: "map_of (agents (ready w m)) (chosen w m userId msg p) = Some a"
    and 2: "cls a \<in> {FoodieAgent, RideNowAgent, AskMeAgent}"
    and 3: "body w (cls a) = Inl err"
    and 4: "now w Sweep - 24 * 60 * 60 * 1000 \<le> now w Activity"
    by blast+
  from 2 3 have "agent_processMessage w a msg c p = Inr (handleError w a msg err)" for c
    by (simp add: agent_processMessage_def)
  with insrc_turn [OF assms 1 2 4]
  show "\<exists>ctx'.
          \<not> failed (fst (processMessage w m userId msg p)) \<and>
          getUserContext (fst (snd (processMessage w m userId msg p))) userId = Some ctx' \<and>
          lastActivity ctx' = now w Activity \<and>
          history ctx' = history (load w m userId) @
            [UserEntry msg (now w UserTimestamp),
             recorded w (chosen w m userId msg p) (handleError w a msg err)]"
    by auto
next
  assume h: "getUserContext m userId = Some ctx \<and> failed (fst (processMessage w m userId msg p))"
  then have f: "map_of (conversationContext m) userId = Some ctx"
    by (simp add: getUserContext_def)
  from h obtain e where e: "fst (processMessage_try w (ready w m) userId msg p) = Inl e"
    using failed_processMessage [of w m userId msg p] by blast
  from failed_turn_existing [OF f e]
  show "\<exists>ctx'.
          getUserContext (fst (snd (processMessage w m userId msg p))) userId = Some ctx' \<and>
          lastActivity ctx' = now w Activity \<and>
          (history ctx' = history ctx @ [UserEntry msg (now w UserTimestamp)] \<or>
           (\<exists>b r h.
              map_of (agents (ready w m)) (chosen w m userId msg p) = Some b \<and>
              agent_processMessage w b msg (turn_context w m userId msg p) p = Inr r \<and>
              r_handoff r = Some h \<and> autoHandoff h \<and>
              history ctx' = history ctx @
                [UserEntry msg (now w UserTimestamp), recorded w (chosen w m userId msg p) r]))"
    by (simp only: getUserContext_def processMessage_manager)
qed

theorem failure_keeps_inbound_amended_witness:
  "reachable constructor \<and>
   list_ex is_classification
     (snd (snd (processMessage (plain_world ''I think: weather'' ''Hello'') constructor ''u1''
                  ''what is the weather'' None))) \<and>
   ''i think: weather'' \<notin>
     set (getAvailableAgents (ready (plain_world ''I think: weather'' ''Hello'') constructor)) \<and>
   now (plain_world ''I think: weather'' ''Hello'') Sweep - 24 * 60 * 60 * 1000
     \<le> now (plain_world ''I think: weather'' ''Hello'') Activity \<and>
   getUserContext constructor ''u1'' = None \<and>
   (\<exists>b r ctx'.
      map_of (agents (ready (plain_world ''I think: weather'' ''Hello'') constructor)) ''askme'' = Some b \<and>
      agent_processMessage (plain_world ''I think: weather'' ''Hello'') b ''what is the weather''
        (turn_context (plain_world ''I think: weather'' ''Hello'') constructor ''u1''
           ''what is the weather'' None) None = Inr r \<and>
      \<not> failed (fst (processMessage (plain_world ''I think: weather'' ''Hello'') constructor ''u1''
                         ''what is the weather'' None)) \<and>
      getUserContext
        (fst (snd (processMessage (plain_world ''I think: weather'' ''Hello'') constructor ''u1''
                     ''what is the weather'' None))) ''u1'' = Some ctx' \<and>
      lastActivity ctx' = now (plain_world ''I think: weather'' ''Hello'') Activity \<and>
      history ctx' =
        history (load (plain_world ''I think: weather'' ''Hello'') constructor ''u1'') @
          [UserEntry ''what is the weather''
             (now (plain_world ''I think: weather'' ''Hello'') UserTimestamp),
           recorded (plain_world ''I think: weather'' ''Hello'') ''askme'' r]) \<and>
   map_of (agents (ready cancel_world constructor))
     (chosen cancel_world constructor ''u1'' ''cancel my ride'' None) = Some new_RideNowAgent \<and>
   cls new_RideNowAgent \<in> {FoodieAgent, RideNowAgent, AskMeAgent} \<and>
   body cancel_world (cls new_RideNowAgent) =
     Inl (Error ''this.handleRideCancellation is not a function'') \<and>
   now cancel_world Sweep - 24 * 60 * 60 * 1000 \<le> now cancel_world Activity \<and>
   (\<exists>ctx'.
      \<not> failed (fst (processMessage cancel_world constructor ''u1'' ''cancel my ride'' None)) \<and>
      getUserContext
        (fst (snd (processMessage cancel_world constructor ''u1'' ''cancel my ride'' None)))
        ''u1'' = Some ctx' \<and>
      lastActivity ctx' = now cancel_world Activity \<and>
      history ctx' =
        history (load cancel_world constructor ''u1'') @
          [UserEntry ''cancel my ride'' (now cancel_world UserTimestamp),
           recorded cancel_world (chosen cancel_world constructor ''u1'' ''cancel my ride'' None)
             (handleError cancel_world new_RideNowAgent ''cancel my ride''
                (Error ''this.handleRideCancellation is not a function''))]) \<and>
   reachable ride_manager \<and>
   getUserContext ride_manager ''u1'' = Some (the (getUserContext ride_manager ''u1'')) \<and>
   failed (fst (processMessage (plain_world ''travelbuddy'' []) ride_manager ''u1''
                  ''plan a trip'' None)) \<and>
   (\<exists>ctx'.
      getUserContext
        (fst (snd (processMessage (plain_world ''travelbuddy'' []) ride_manager ''u1''
                     ''plan a trip'' None))) ''u1'' = Some ctx' \<and>
      lastActivity ctx' = now (plain_world ''travelbuddy'' []) Activity \<and>
      (history ctx' =
         history (the (getUserContext ride_manager ''u1'')) @
           [UserEntry ''plan a trip'' (now (plain_world ''travelbuddy'' []) UserTimestamp)] \<or>
       (\<exists>b r h.
          map_of (agents (ready (plain_world ''travelbuddy'' []) ride_manager))
            (chosen (plain_world ''travelbuddy'' []) ride_manager ''u1'' ''plan a trip'' None) = Some b \<and>
          agent_processMessage (plain_world ''travelbuddy'' []) b ''plan a trip''
            (turn_context (plain_world ''travelbuddy'' []) ride_manager ''u1'' ''plan a trip'' None)
            None = Inr r \<and>
          r_handoff r = Some h \<and> autoHandoff h \<and>
          history ctx' =
            history (the (getUserContext ride_manager ''u1'')) @
              [UserEntry ''plan a trip'' (now (plain_world ''travelbuddy'' []) UserTimestamp),
               recorded (plain_world ''travelbuddy'' [])
                 (chosen (plain_world ''travelbuddy'' []) ride_manager ''u1'' ''plan a trip'' None)
                 r])))"
proof -
  let ?w1 = "plain_world ''I think: weather'' ''Hello''"
  let ?w3 = "plain_world ''travelbuddy'' []"
  let ?e = "Error ''this.handleRideCancellation is not a function''"
  have r0: "reachable constructor"
    unfolding reachable_def by (rule reachable_by.start)
  have r1: "reachable ride_manager"
    unfolding reachable_def ride_manager_def
    by (rule reachable_by.turn [OF reachable_by.start directives_in_any])
  have a1: "list_ex is_classification
              (snd (snd (processMessage ?w1 constructor ''u1'' ''what is the weather'' None)))"
    by code_simp
  have a2: "case completion ?w1 of
              Inl e \<Rightarrow> True
            | Inr content \<Rightarrow>
                toLowerCase (trim content) \<notin> set (getAvailableAgents (ready ?w1 constructor))"
    by code_simp
  have a2': "''i think: weather'' \<notin> set (getAvailableAgents (ready ?w1 constructor))"
    by code_simp
  have a3: "now ?w1 Sweep - 24 * 60 * 60 * 1000 \<le> now ?w1 Activity" by code_simp
  have a4: "getUserContext constructor ''u1'' = None" by code_simp
  have b1: "map_of (agents (ready cancel_world constructor))
              (chosen cancel_world constructor ''u1'' ''cancel my ride'' None) = Some new_RideNowAgent"
    by code_simp
  have b2: "cls new_RideNowAgent \<in> {FoodieAgent, RideNowAgent, AskMeAgent}" by code_simp
  have b3: "body cancel_world (cls new_RideNowAgent) = Inl ?e" by code_simp
  have b4: "now cancel_world Sweep - 24 * 60 * 60 * 1000 \<le> now cancel_world Activity"
    by code_simp
  have c1: "getUserContext ride_manager ''u1'' = Some (the (getUserContext ride_manager ''u1''))"
    by code_simp
  have c2: "failed (fst (processMessage ?w3 ride_manager ''u1'' ''plan a trip'' None))"
    by code_simp
  note t1 = failure_keeps_inbound_amended
              [OF r0, of ?w1 "''u1''" "''what is the weather''" None, THEN conjunct1, rule_format]
  note t2 = failure_keeps_inbound_amended
              [OF r0, of cancel_world "''u1''" "''cancel my ride''" None new_RideNowAgent ?e,
               THEN conjunct2, THEN conjunct1, rule_format]
  note t3 = failure_keeps_inbound_amended
              [OF r1, of ?w3 "''u1''" "''plan a trip''" None _ _ "the (getUserContext ride_manager ''u1'')",
               THEN conjunct2, THEN conjunct2, rule_format]
  from t1 [OF conjI [OF a1 conjI [OF a2 a3]]]
       t2 [OF conjI [OF b1 conjI [OF b2 conjI [OF b3 b4]]]]
       t3 [OF conjI [OF c1 c2]]
       r0 r1 a1 a2' a3 a4 b1 b2 b3 b4 c1 c2
  show ?thesis by (intro conjI) assumption+
qed

text \<open>
  C5 as stated fails: after the failed first turn of a user the store has no context
  for that user; and after the failed turn of a user with a context, the history has
  gained the inbound message and nothing else.
\<close>

theorem failure_keeps_inbound_counterexample:
  "getUserContext constructor ''u1'' = None \<and>
   failed (fst (processMessage (plain_world ''travelbuddy'' []) constructor ''u1'' ''plan a trip'' None)) \<and>
   getUserContext
     (fst (snd (processMessage (plain_world ''travelbuddy'' []) constructor ''u1''
                  ''plan a trip'' None))) ''u1'' = None \<and>
   failed (fst (processMessage (plain_world ''travelbuddy'' []) ride_manager ''u1'' ''plan a trip'' None)) \<and>
   map_option history
     (getUserContext
        (fst (snd (processMessage (plain_world ''travelbuddy'' []) ride_manager ''u1''
                     ''plan a trip'' None))) ''u1'') =
     Some [UserEntry ''find me a cab to the airport'' 1000,
           AgentEntry ''ridenow'' ''Where to?'' 1000
             [(''agent'', JStr ''RideNow AI''), (''timestamp'', JNum 1000)],
           UserEntry ''plan a trip'' 1000]"
  by code_simp

end
